theory Spec2Isabelle
  imports Complex_Main
begin

section \<open>Data model\<close>

text \<open>
  The pipeline of \<^verbatim>\<open>scripts/google_extractor\<close>: a query is sent, page by page, to the
  search API (\<^verbatim>\<open>google_cse.py\<close>), every retained hit is fetched and its text extracted
  (\<^verbatim>\<open>text_extractor.py\<close>), and the records of a batch of queries are written to two
  files (\<^verbatim>\<open>main.py\<close>).

  A JSON field of a search hit is a string or \<^verbatim>\<open>null\<close>; Python's \<^verbatim>\<open>None\<close> is \<open>JNull\<close>.
  A field that is absent from the JSON object is \<open>None\<close> at the option level, so that
  \<^verbatim>\<open>item.get('title', 'N/A')\<close> can tell an absent key from a \<^verbatim>\<open>null\<close> value.
\<close>

datatype jval = JNull | JStr string

text \<open>One element of the response's \<^verbatim>\<open>items\<close> array, as the provider sends it.\<close>

record cse_item =
  item_title :: "jval option"
  item_link :: "jval option"
  item_snippet :: "jval option"

text \<open>
  The decoded response object, as the provider's contract gives it: whether it has an
  \<^verbatim>\<open>error\<close> member (an object, of which only the log line reads \<^verbatim>\<open>code\<close> and \<^verbatim>\<open>message\<close>),
  and its \<^verbatim>\<open>items\<close> array when the key is present.
\<close>

record cse_response =
  resp_error :: bool
  resp_items :: "cse_item list option"

text \<open>The dictionary \<^verbatim>\<open>process_search_results\<close> builds for a retained hit.\<close>

record search_item =
  title :: jval
  link :: jval
  snippet :: jval

text \<open>
  The raw record: the same dictionary after \<^verbatim>\<open>_process_single_query\<close> has stored
  \<^verbatim>\<open>query\<close>, \<^verbatim>\<open>search_page\<close> and \<^verbatim>\<open>approx_rank\<close> in it.
\<close>

record raw_record = search_item +
  query :: string
  search_page :: int
  approx_rank :: int

text \<open>The dictionary \<^verbatim>\<open>final_record\<close>.\<close>

record extracted_record =
  x_query :: string
  x_search_page :: int
  x_approx_rank :: int
  url :: jval
  x_title :: jval
  extracted_text :: "string option"

text \<open>The dictionary \<^verbatim>\<open>counters\<close>.\<close>

record counters =
  raw_saved :: int
  urls_processed :: int
  extractions_success :: int

text \<open>The \<^verbatim>\<open>argparse.Namespace\<close> returned by \<^verbatim>\<open>parse_arguments\<close>.\<close>

record args =
  query_column :: string
  pages :: int
  num_results :: int
  delay :: real
  timeout :: int
  site_search :: "string option"
  batch_size :: int
  search_output_base :: string
  extracted_output_base :: string

text \<open>The two secrets \<^verbatim>\<open>config.py\<close> reads from the process environment.\<close>

record config =
  API_KEY :: "string option"
  CSE_ID :: "string option"

section \<open>The outside world\<close>

text \<open>
  Everything the program does to the outside is a call of one of the functions below on
  a world state \<open>'w\<close>, which the call may change: the answer to a call may depend on
  every call made before it. The parameters of the search request are
  \<^verbatim>\<open>params\<close> of \<^verbatim>\<open>search_google_cse\<close>.
\<close>

record cse_params =
  p_key :: string
  p_cx :: string
  p_q :: string
  p_num :: int
  p_start :: int
  p_siteSearch :: "string option"

text \<open>
  What \<^verbatim>\<open>requests.get\<close>, \<^verbatim>\<open>raise_for_status\<close> and \<^verbatim>\<open>response.json()\<close> do together, by the
  \<^verbatim>\<open>except\<close> clause that receives it: a \<^verbatim>\<open>Timeout\<close>, any other
  \<^verbatim>\<open>RequestException\<close>, a \<^verbatim>\<open>json.JSONDecodeError\<close>, or a decoded object.
\<close>

datatype http_outcome =
  HttpTimeout | HttpRequestException | HttpJSONDecodeError | HttpOk cse_response

text \<open>
  A batch file is named from the base path of its destination and the number of the
  batch (\<^verbatim>\<open>{dir}/{name}_batches/{name}_{batch_index + 1}.jsonl\<close>); the directory from the
  base path alone. A path is kept as what it is computed from.
\<close>

datatype path = BatchDir string | BatchFile string int

datatype out_record = RawLine raw_record | ExtractedLine extracted_record

record 'w env =
  requests_get :: "cse_params \<Rightarrow> 'w \<Rightarrow> http_outcome \<times> 'w"
  extract_main_text_requests :: "string \<Rightarrow> int \<Rightarrow> 'w \<Rightarrow> string option \<times> 'w"
  read_queries_from_vifactcheck :: "string \<Rightarrow> 'w \<Rightarrow> string list option \<times> 'w"
  makedirs :: "path \<Rightarrow> 'w \<Rightarrow> bool \<times> 'w"
  open_w :: "path \<Rightarrow> 'w \<Rightarrow> bool \<times> 'w"
  dump_and_write :: "path \<Rightarrow> out_record \<Rightarrow> 'w \<Rightarrow> bool \<times> 'w"
  close_file :: "path \<Rightarrow> 'w \<Rightarrow> bool \<times> 'w"
  time_sleep :: "real \<Rightarrow> 'w \<Rightarrow> 'w"

text \<open>
  \<^verbatim>\<open>extract_main_text_requests\<close> returns a text or \<^verbatim>\<open>None\<close> and catches every exception
  (its last clause is \<^verbatim>\<open>except Exception\<close>). \<open>makedirs\<close>, \<open>open_w\<close> and \<open>close_file\<close>
  answer \<open>False\<close> when the call raises \<^verbatim>\<open>OSError\<close>; \<open>dump_and_write\<close> answers \<open>False\<close>
  when \<^verbatim>\<open>json.dumps\<close> or \<^verbatim>\<open>outfile.write\<close> raises inside \<^verbatim>\<open>save_jsonl_record\<close>.

  The calls a run makes are recorded, in order, with their answers.
\<close>

datatype event =
  EvSearch string int int
| EvExtract string
| EvSleep real
| EvMakedirs path bool
| EvOpen path bool
| EvWrite path out_record bool
| EvClose path bool

datatype exn = RequestException | ZeroDivisionError

section \<open>config.py\<close>

definition DEFAULT_CSE_NUM_RESULTS :: int where
  "DEFAULT_CSE_NUM_RESULTS = 10"

definition DEFAULT_REQUEST_DELAY :: real where
  "DEFAULT_REQUEST_DELAY = 1"

definition DEFAULT_EXTRACTION_TIMEOUT :: int where
  "DEFAULT_EXTRACTION_TIMEOUT = 15"

definition DEFAULT_EXTRACTED_OUTPUT_BASE :: string where
  "DEFAULT_EXTRACTED_OUTPUT_BASE = ''results/raw_search''"

definition DEFAULT_SEARCH_OUTPUT_BASE :: string where
  "DEFAULT_SEARCH_OUTPUT_BASE = ''results/extracted_text''"

text \<open>Python's truth value of an optional string and of a field.\<close>

fun truthy_opt :: "string option \<Rightarrow> bool" where
  "truthy_opt None = False"
| "truthy_opt (Some s) = (s \<noteq> [])"

text \<open>\<^verbatim>\<open>validate_config\<close>: \<open>False\<close> when it raises \<^verbatim>\<open>ValueError\<close>.\<close>

definition validate_config :: "config \<Rightarrow> bool" where
  "validate_config cfg =
     (if truthy_opt (API_KEY cfg) then truthy_opt (CSE_ID cfg) else False)"

section \<open>google\_cse.py\<close>

fun startswith :: "string \<Rightarrow> string \<Rightarrow> bool" where
  "startswith s [] = True"
| "startswith [] (p # ps) = False"
| "startswith (c # s) (p # ps) = (c = p \<and> startswith s ps)"

text \<open>
  \<^verbatim>\<open>search_google_cse\<close>: \<open>Inl RequestException\<close> is the re-raised network error, \<open>Inr None\<close>
  the returned \<^verbatim>\<open>None\<close>. The third component lists the request that was sent, if any.
\<close>

definition search_google_cse ::
  "'w env \<Rightarrow> string option \<Rightarrow> string option \<Rightarrow> string \<Rightarrow> int \<Rightarrow> int \<Rightarrow> string option \<Rightarrow> 'w
     \<Rightarrow> (exn + cse_response option) \<times> 'w \<times> event list" where
  "search_google_cse env api_key cse_id q num start site w =
     (case api_key of
        None \<Rightarrow> (Inr None, w, [])
      | Some k \<Rightarrow>
          (case cse_id of
             None \<Rightarrow> (Inr None, w, [])
           | Some c \<Rightarrow>
               if k = [] then (Inr None, w, [])
               else if c = [] then (Inr None, w, [])
               else
                 (case requests_get env
                         \<lparr>p_key = k, p_cx = c, p_q = q, p_num = num, p_start = start,
                          p_siteSearch = site\<rparr> w of
                    (HttpOk results, w') \<Rightarrow>
                      (if resp_error results then Inr None else Inr (Some results),
                       w', [EvSearch q start num])
                  | (HttpTimeout, w') \<Rightarrow> (Inr None, w', [EvSearch q start num])
                  | (HttpRequestException, w') \<Rightarrow>
                      (Inl RequestException, w', [EvSearch q start num])
                  | (HttpJSONDecodeError, w') \<Rightarrow> (Inr None, w', [EvSearch q start num]))))"

text \<open>The body of the loop of \<^verbatim>\<open>process_search_results\<close> over \<^verbatim>\<open>results_json['items']\<close>.\<close>

definition get_default :: "jval option \<Rightarrow> jval" where
  "get_default v = (case v of None \<Rightarrow> JStr ''N/A'' | Some x \<Rightarrow> x)"

definition retain_item :: "cse_item \<Rightarrow> string \<Rightarrow> search_item" where
  "retain_item item l =
     \<lparr>title = get_default (item_title item), link = JStr l,
      snippet = get_default (item_snippet item)\<rparr>"

fun process_item :: "search_item list \<Rightarrow> cse_item \<Rightarrow> search_item list" where
  "process_item processed item =
     (case item_link item of
        Some (JStr l) \<Rightarrow>
          if l \<noteq> [] \<and> (startswith l ''http://'' \<or> startswith l ''https://'')
          then processed @ [retain_item item l]
          else processed
      | Some JNull \<Rightarrow> processed
      | None \<Rightarrow> processed)"

fun process_items :: "search_item list \<Rightarrow> cse_item list \<Rightarrow> search_item list" where
  "process_items processed [] = processed"
| "process_items processed (item # rest) = process_items (process_item processed item) rest"

definition process_search_results :: "cse_response option \<Rightarrow> search_item list" where
  "process_search_results results_json =
     (case results_json of
        None \<Rightarrow> []
      | Some r \<Rightarrow>
          (case resp_items r of
             None \<Rightarrow> []
           | Some its \<Rightarrow> process_items [] its))"

section \<open>main.py: \_process\_single\_query\<close>

text \<open>
  The local variables of \<^verbatim>\<open>_process_single_query\<close>, with the world and the calls made so
  far. The function returns \<open>counters\<close>, \<open>raw_results_for_query\<close> and
  \<open>extracted_results_for_query\<close> of its last state.
\<close>

record 'w qstate =
  counters :: counters
  raw_results_for_query :: "raw_record list"
  extracted_results_for_query :: "extracted_record list"
  stop_fetching_pages :: bool
  q_world :: 'w
  q_trace :: "event list"

text \<open>\<^verbatim>\<open>range(n)\<close> and \<^verbatim>\<open>enumerate(xs)\<close>.\<close>

definition range_py :: "int \<Rightarrow> int list" where
  "range_py n = [0..n - 1]"

fun enumerate_from :: "int \<Rightarrow> 'a list \<Rightarrow> (int \<times> 'a) list" where
  "enumerate_from i [] = []"
| "enumerate_from i (x # xs) = (i, x) # enumerate_from (i + 1) xs"

definition enumerate_py :: "'a list \<Rightarrow> (int \<times> 'a) list" where
  "enumerate_py xs = enumerate_from 0 xs"

definition final_record ::
  "string \<Rightarrow> int \<Rightarrow> int \<Rightarrow> search_item \<Rightarrow> string option \<Rightarrow> extracted_record" where
  "final_record q page current_rank search_item extracted_content =
     \<lparr>x_query = q, x_search_page = page + 1, x_approx_rank = current_rank,
      url = link search_item, x_title = title search_item,
      extracted_text = extracted_content\<rparr>"

text \<open>The steps 1 to 3 of the loop over \<^verbatim>\<open>enumerate(search_results_list)\<close>.\<close>

definition raw_entry :: "string \<Rightarrow> int \<Rightarrow> int \<Rightarrow> search_item \<Rightarrow> raw_record" where
  "raw_entry q page current_rank search_item =
     \<lparr>title = title search_item, link = link search_item, snippet = snippet search_item,
      query = q, search_page = page + 1, approx_rank = current_rank\<rparr>"

definition prepare_raw :: "string \<Rightarrow> int \<Rightarrow> int \<Rightarrow> search_item \<Rightarrow> 'w qstate \<Rightarrow> 'w qstate" where
  "prepare_raw q page current_rank search_item st =
     st\<lparr>raw_results_for_query := raw_results_for_query st @
           [raw_entry q page current_rank search_item],
        counters := (counters st)\<lparr>raw_saved := raw_saved (counters st) + 1\<rparr>\<rparr>"

definition append_final ::
  "string \<Rightarrow> int \<Rightarrow> int \<Rightarrow> search_item \<Rightarrow> string option \<Rightarrow> 'w qstate \<Rightarrow> 'w qstate" where
  "append_final q page current_rank search_item extracted_content st =
     st\<lparr>extracted_results_for_query := extracted_results_for_query st @
           [final_record q page current_rank search_item extracted_content]\<rparr>"

definition extract_text ::
  "'w env \<Rightarrow> args \<Rightarrow> string \<Rightarrow> 'w qstate \<Rightarrow> string option \<times> 'w qstate" where
  "extract_text env a target_url st =
     (case extract_main_text_requests env target_url (timeout a) (q_world st) of
        (extracted_content, w') \<Rightarrow>
          (extracted_content,
           st\<lparr>counters :=
                 (counters st)\<lparr>urls_processed := urls_processed (counters st) + 1,
                   extractions_success :=
                     (if extracted_content \<noteq> None
                      then extractions_success (counters st) + 1
                      else extractions_success (counters st))\<rparr>,
              q_world := w', q_trace := q_trace st @ [EvExtract target_url]\<rparr>))"

definition item_body ::
  "'w env \<Rightarrow> args \<Rightarrow> string \<Rightarrow> int \<Rightarrow> int \<Rightarrow> int \<Rightarrow> search_item \<Rightarrow> 'w qstate \<Rightarrow> 'w qstate" where
  "item_body env a q page start_index result_index search_item st =
     (let current_rank = start_index + result_index;
          st1 = prepare_raw q page current_rank search_item st
      in case link search_item of
           JNull \<Rightarrow> append_final q page current_rank search_item None st1
         | JStr target_url \<Rightarrow>
             if target_url = [] then append_final q page current_rank search_item None st1
             else
               (case extract_text env a target_url st1 of
                  (extracted_content, st2) \<Rightarrow>
                    append_final q page current_rank search_item extracted_content st2))"

fun items_loop ::
  "'w env \<Rightarrow> args \<Rightarrow> string \<Rightarrow> int \<Rightarrow> int \<Rightarrow> (int \<times> search_item) list \<Rightarrow> 'w qstate \<Rightarrow> 'w qstate" where
  "items_loop env a q page start_index [] st = st"
| "items_loop env a q page start_index ((result_index, search_item) # rest) st =
     items_loop env a q page start_index rest
       (item_body env a q page start_index result_index search_item st)"

text \<open>\<^verbatim>\<open>api_kwargs\<close>: the site restriction, when \<^verbatim>\<open>args.site_search\<close> is a non-empty string.\<close>

definition api_kwargs :: "args \<Rightarrow> string option" where
  "api_kwargs a = (if truthy_opt (site_search a) then site_search a else None)"

text \<open>
  One turn of the loop over the pages, after the test of \<^verbatim>\<open>stop_fetching_pages\<close>. The two
  \<^verbatim>\<open>continue\<close> branches and the two branches that find no result only set the flag.
\<close>

definition page_body :: "'w env \<Rightarrow> config \<Rightarrow> args \<Rightarrow> string \<Rightarrow> int \<Rightarrow> 'w qstate \<Rightarrow> 'w qstate" where
  "page_body env cfg a q page st =
     (let start_index = page * num_results a + 1
      in case search_google_cse env (API_KEY cfg) (CSE_ID cfg) q (num_results a) start_index
                (api_kwargs a) (q_world st) of
           (res, w', evs) \<Rightarrow>
             (let st1 = st\<lparr>q_world := w', q_trace := q_trace st @ evs\<rparr>
              in case res of
                   Inl e \<Rightarrow> st1\<lparr>stop_fetching_pages := True\<rparr>
                 | Inr None \<Rightarrow> st1\<lparr>stop_fetching_pages := True\<rparr>
                 | Inr (Some results_json) \<Rightarrow>
                     (let search_results_list = process_search_results (Some results_json)
                      in if search_results_list \<noteq> [] then
                           (let st2 = items_loop env a q page start_index
                                        (enumerate_py search_results_list) st1
                            in if int (length search_results_list) < num_results a
                               then st2\<lparr>stop_fetching_pages := True\<rparr>
                               else st2)
                         else st1\<lparr>stop_fetching_pages := True\<rparr>)))"

text \<open>The loop over \<^verbatim>\<open>range(args.pages)\<close>; the first branch is the \<^verbatim>\<open>break\<close>.\<close>

fun pages_loop :: "'w env \<Rightarrow> config \<Rightarrow> args \<Rightarrow> string \<Rightarrow> int list \<Rightarrow> 'w qstate \<Rightarrow> 'w qstate" where
  "pages_loop env cfg a q [] st = st"
| "pages_loop env cfg a q (page # rest) st =
     (if stop_fetching_pages st then st
      else pages_loop env cfg a q rest (page_body env cfg a q page st))"

definition init_qstate :: "'w \<Rightarrow> 'w qstate" where
  "init_qstate w =
     \<lparr>counters = \<lparr>raw_saved = 0, urls_processed = 0, extractions_success = 0\<rparr>,
      raw_results_for_query = [], extracted_results_for_query = [],
      stop_fetching_pages = False, q_world = w, q_trace = []\<rparr>"

definition process_single_query :: "'w env \<Rightarrow> config \<Rightarrow> args \<Rightarrow> string \<Rightarrow> 'w \<Rightarrow> 'w qstate" where
  "process_single_query env cfg a q w =
     pages_loop env cfg a q (range_py (pages a)) (init_qstate w)"

section \<open>main.py: parse\_arguments and batch\_generator\<close>

text \<open>
  What the command line gives: the required column name, and a value for each option
  that was written on it.
\<close>

record cmdline =
  cl_query_column :: string
  cl_pages :: "int option"
  cl_num_results :: "int option"
  cl_delay :: "real option"
  cl_timeout :: "int option"
  cl_site_search :: "string option"
  cl_batch_size :: "int option"
  cl_search_output_base :: "string option"
  cl_extracted_output_base :: "string option"

definition or_default :: "'a option \<Rightarrow> 'a \<Rightarrow> 'a" where
  "or_default given d = (case given of None \<Rightarrow> d | Some v \<Rightarrow> v)"

definition parse_arguments :: "cmdline \<Rightarrow> args" where
  "parse_arguments cl =
     (let args0 =
            \<lparr>query_column = cl_query_column cl,
             pages = or_default (cl_pages cl) 1,
             num_results = or_default (cl_num_results cl) DEFAULT_CSE_NUM_RESULTS,
             delay = or_default (cl_delay cl) DEFAULT_REQUEST_DELAY,
             timeout = or_default (cl_timeout cl) DEFAULT_EXTRACTION_TIMEOUT,
             site_search = cl_site_search cl,
             batch_size = or_default (cl_batch_size cl) 10,
             search_output_base =
               or_default (cl_search_output_base cl) DEFAULT_SEARCH_OUTPUT_BASE,
             extracted_output_base =
               or_default (cl_extracted_output_base cl) DEFAULT_EXTRACTED_OUTPUT_BASE\<rparr>;
          args1 = (if 1 \<le> num_results args0 \<and> num_results args0 \<le> 10 then args0
                   else args0\<lparr>num_results := 10\<rparr>);
          args2 = (if batch_size args1 \<le> 0 then args1\<lparr>batch_size := 1\<rparr> else args1)
      in args2)"

text \<open>
  \<^verbatim>\<open>batch_generator\<close>: the slices \<^verbatim>\<open>data[i:i + batch_size]\<close> for \<open>i\<close> in
  \<^verbatim>\<open>range(0, len(data), batch_size)\<close>, from the index \<open>i\<close> on. A negative step gives an
  empty range; a step of zero is never reached (see \<open>run_process\<close>).
\<close>

function batch_from :: "'a list \<Rightarrow> int \<Rightarrow> nat \<Rightarrow> 'a list list" where
  "batch_from data bs i =
     (if 0 < bs \<and> i < length data
      then take (nat bs) (drop i data) # batch_from data bs (i + nat bs)
      else [])"
  by pat_completeness auto
termination
  by (relation "measure (\<lambda>(data, bs, i). length data - i)") auto

text \<open>The equation of \<open>batch_from\<close> is unfolded on request only.\<close>

declare batch_from.simps [simp del]

definition batch_generator :: "'a list \<Rightarrow> int \<Rightarrow> 'a list list" where
  "batch_generator data bs = batch_from data bs 0"

section \<open>main.py: run\_process\<close>

text \<open>
  The variables of \<^verbatim>\<open>run_process\<close> that outlive a query: the totals, the lines written
  (\<^verbatim>\<open>actual_lines_written\<close>), the number of queries processed, the two lists of the
  current batch, the world and the calls made so far.
\<close>

record 'w rstate =
  total_counters :: counters
  lines_raw :: int
  lines_extracted :: int
  global_query_index :: int
  current_batch_raw_results :: "raw_record list"
  current_batch_extracted_results :: "extracted_record list"
  r_world :: 'w
  r_trace :: "event list"

definition add_counters :: "counters \<Rightarrow> counters \<Rightarrow> counters" where
  "add_counters t c =
     \<lparr>raw_saved = raw_saved t + raw_saved c,
      urls_processed = urls_processed t + urls_processed c,
      extractions_success = extractions_success t + extractions_success c\<rparr>"

text \<open>The delay before a query, which is skipped for the first query of the run.\<close>

definition apply_delay :: "'w env \<Rightarrow> args \<Rightarrow> 'w rstate \<Rightarrow> 'w rstate" where
  "apply_delay env a rs =
     (if 0 < global_query_index rs \<and> 0 < delay a
      then rs\<lparr>r_world := time_sleep env (delay a) (r_world rs),
              r_trace := r_trace rs @ [EvSleep (delay a)]\<rparr>
      else rs)"

text \<open>One turn of the loop over the queries of a batch.\<close>

definition query_body :: "'w env \<Rightarrow> config \<Rightarrow> args \<Rightarrow> string \<Rightarrow> 'w rstate \<Rightarrow> 'w rstate" where
  "query_body env cfg a current_query rs =
     (let rs1 = apply_delay env a rs;
          qst = process_single_query env cfg a current_query (r_world rs1)
      in rs1\<lparr>total_counters := add_counters (total_counters rs1) (counters qst),
              current_batch_raw_results :=
                current_batch_raw_results rs1 @ raw_results_for_query qst,
              current_batch_extracted_results :=
                current_batch_extracted_results rs1 @ extracted_results_for_query qst,
              global_query_index := global_query_index rs1 + 1,
              r_world := q_world qst,
              r_trace := r_trace rs1 @ q_trace qst\<rparr>)"

fun queries_loop :: "'w env \<Rightarrow> config \<Rightarrow> args \<Rightarrow> string list \<Rightarrow> 'w rstate \<Rightarrow> 'w rstate" where
  "queries_loop env cfg a [] rs = rs"
| "queries_loop env cfg a (current_query # rest) rs =
     queries_loop env cfg a rest (query_body env cfg a current_query rs)"

text \<open>
  The loop over the records inside \<^verbatim>\<open>with open(...)\<close>: \<^verbatim>\<open>save_jsonl_record\<close> answers
  whether the line was written and never raises.
\<close>

fun write_records ::
  "'w env \<Rightarrow> path \<Rightarrow> out_record list \<Rightarrow> int \<times> 'w \<times> event list \<Rightarrow> int \<times> 'w \<times> event list" where
  "write_records env f [] acc = acc"
| "write_records env f (r # rest) (saved_count, w, evs) =
     (case dump_and_write env f r w of
        (ok, w') \<Rightarrow>
          write_records env f rest
            (if ok then saved_count + 1 else saved_count, w', evs @ [EvWrite f r ok]))"

text \<open>
  One \<^verbatim>\<open>try: with open(...) ... except IOError\<close>: the count of saved records, whether the
  block ended without \<^verbatim>\<open>IOError\<close> (the file opened, and closed at the end of the block),
  the world and the calls.
\<close>

definition write_batch_file ::
  "'w env \<Rightarrow> path \<Rightarrow> out_record list \<Rightarrow> 'w \<Rightarrow> int \<times> bool \<times> 'w \<times> event list" where
  "write_batch_file env f records w =
     (case open_w env f w of
        (was_opened, w1) \<Rightarrow>
          if was_opened then
            (case write_records env f records (0, w1, [EvOpen f True]) of
               (saved_count, w2, evs) \<Rightarrow>
                 (case close_file env f w2 of
                    (was_closed, w3) \<Rightarrow>
                      (saved_count, was_closed, w3, evs @ [EvClose f was_closed])))
          else (0, False, w1, [EvOpen f False]))"

text \<open>
  The end of a batch: the two files are written, then the last \<^verbatim>\<open>logging.info\<close> divides
  each count by the length of its list.
\<close>

definition save_batch :: "'w env \<Rightarrow> args \<Rightarrow> int \<Rightarrow> 'w rstate \<Rightarrow> exn option \<times> 'w rstate" where
  "save_batch env a batch_index rs =
     (let raw_batch_filename = BatchFile (search_output_base a) (batch_index + 1);
          extracted_batch_filename = BatchFile (extracted_output_base a) (batch_index + 1)
      in case write_batch_file env raw_batch_filename
                (map RawLine (current_batch_raw_results rs)) (r_world rs) of
           (raw_saved_count, raw_done, w1, evs1) \<Rightarrow>
             (case write_batch_file env extracted_batch_filename
                     (map ExtractedLine (current_batch_extracted_results rs)) w1 of
                (extracted_saved_count, extracted_done, w2, evs2) \<Rightarrow>
                  (let rs' =
                         rs\<lparr>lines_raw :=
                              (if raw_done then lines_raw rs + raw_saved_count
                               else lines_raw rs),
                            lines_extracted :=
                              (if extracted_done
                               then lines_extracted rs + extracted_saved_count
                               else lines_extracted rs),
                            r_world := w2,
                            r_trace := r_trace rs @ evs1 @ evs2\<rparr>
                   in if current_batch_raw_results rs = []
                      then (Some ZeroDivisionError, rs')
                      else if current_batch_extracted_results rs = []
                      then (Some ZeroDivisionError, rs')
                      else (None, rs'))))"

definition batch_body ::
  "'w env \<Rightarrow> config \<Rightarrow> args \<Rightarrow> int \<Rightarrow> string list \<Rightarrow> 'w rstate \<Rightarrow> exn option \<times> 'w rstate" where
  "batch_body env cfg a batch_index query_batch rs =
     save_batch env a batch_index
       (queries_loop env cfg a query_batch
          (rs\<lparr>current_batch_raw_results := [], current_batch_extracted_results := []\<rparr>))"

text \<open>
  The loop over the batches, inside \<^verbatim>\<open>try\<close>: an exception leaves the loop, and
  \<^verbatim>\<open>except Exception\<close> receives it.
\<close>

fun batches_loop ::
  "'w env \<Rightarrow> config \<Rightarrow> args \<Rightarrow> (int \<times> string list) list \<Rightarrow> 'w rstate \<Rightarrow> exn option \<times> 'w rstate" where
  "batches_loop env cfg a [] rs = (None, rs)"
| "batches_loop env cfg a ((batch_index, query_batch) # rest) rs =
     (case batch_body env cfg a batch_index query_batch rs of
        (Some e, rs') \<Rightarrow> (Some e, rs')
      | (None, rs') \<Rightarrow> batches_loop env cfg a rest rs')"

definition init_rstate :: "'w \<Rightarrow> event list \<Rightarrow> 'w rstate" where
  "init_rstate w evs =
     \<lparr>total_counters = \<lparr>raw_saved = 0, urls_processed = 0, extractions_success = 0\<rparr>,
      lines_raw = 0, lines_extracted = 0, global_query_index = 0,
      current_batch_raw_results = [], current_batch_extracted_results = [],
      r_world = w, r_trace = evs\<rparr>"

text \<open>
  How \<^verbatim>\<open>run_process\<close> ends: one of its four early \<^verbatim>\<open>return\<close>s, or the summary, with the
  exception that \<^verbatim>\<open>except Exception\<close> caught, if any.
\<close>

datatype ending = ConfigError | ReadError | NoQueries | DirError | Summary "exn option"

text \<open>
  The \<^verbatim>\<open>try\<close> block: \<^verbatim>\<open>math.ceil(num_queries / batch_size)\<close> divides by the batch size
  before the loop starts.
\<close>

definition try_batches ::
  "'w env \<Rightarrow> config \<Rightarrow> args \<Rightarrow> string list \<Rightarrow> 'w rstate \<Rightarrow> exn option \<times> 'w rstate" where
  "try_batches env cfg a queries rs =
     (if batch_size a = 0 then (Some ZeroDivisionError, rs)
      else batches_loop env cfg a (enumerate_py (batch_generator queries (batch_size a))) rs)"

definition run_process :: "'w env \<Rightarrow> config \<Rightarrow> args \<Rightarrow> 'w \<Rightarrow> ending \<times> 'w rstate" where
  "run_process env cfg a w =
     (if validate_config cfg then
        (case read_queries_from_vifactcheck env (query_column a) w of
           (None, w1) \<Rightarrow> (ReadError, init_rstate w1 [])
         | (Some queries, w1) \<Rightarrow>
             if queries = [] then (NoQueries, init_rstate w1 [])
             else
               (case makedirs env (BatchDir (search_output_base a)) w1 of
                  (made1, w2) \<Rightarrow>
                    if made1 then
                      (case makedirs env (BatchDir (extracted_output_base a)) w2 of
                         (made2, w3) \<Rightarrow>
                           if made2 then
                             (case try_batches env cfg a queries
                                     (init_rstate w3
                                        [EvMakedirs (BatchDir (search_output_base a)) True,
                                         EvMakedirs (BatchDir (extracted_output_base a)) True]) of
                                (e, rs) \<Rightarrow> (Summary e, rs))
                           else
                             (DirError,
                              init_rstate w3
                                [EvMakedirs (BatchDir (search_output_base a)) True,
                                 EvMakedirs (BatchDir (extracted_output_base a)) False]))
                    else
                      (DirError,
                       init_rstate w2 [EvMakedirs (BatchDir (search_output_base a)) False])))
      else (ConfigError, init_rstate w []))"

section \<open>google\_cse.py: process\_search\_results on any decoded answer\<close>

text \<open>
  The records \<open>cse_item\<close> and \<open>cse_response\<close> above hold what the provider's contract
  gives: hits that are objects whose title, link and snippet are strings, \<^verbatim>\<open>null\<close> or
  absent, and an \<^verbatim>\<open>error\<close> member that is an object. \<^verbatim>\<open>response.json()\<close> can return any
  JSON value, and \<^verbatim>\<open>process_search_results\<close> has no \<^verbatim>\<open>try\<close>: this section follows the
  function on every JSON value, with the exceptions Python raises. An object is the list
  of its members.
\<close>

datatype json =
  JsNull | JsBool bool | JsNum real | JsStr string | JsArr "json list"
| JsObj "(string \<times> json) list"

datatype py_error = AttributeError | TypeError | KeyError

text \<open>
  The truth value of a JSON value, \<^verbatim>\<open>key in v\<close>, \<^verbatim>\<open>v[key]\<close>, \<^verbatim>\<open>for item in v\<close> and
  \<^verbatim>\<open>v.get(key)\<close>, as Python defines them on \<^verbatim>\<open>dict\<close>, \<^verbatim>\<open>list\<close>, \<^verbatim>\<open>str\<close>, \<^verbatim>\<open>None\<close>,
  \<^verbatim>\<open>bool\<close> and numbers.
\<close>

fun py_truthy :: "json \<Rightarrow> bool" where
  "py_truthy JsNull = False"
| "py_truthy (JsBool b) = b"
| "py_truthy (JsNum x) = (x \<noteq> 0)"
| "py_truthy (JsStr s) = (s \<noteq> [])"
| "py_truthy (JsArr xs) = (xs \<noteq> [])"
| "py_truthy (JsObj members) = (members \<noteq> [])"

fun contains_str :: "string \<Rightarrow> string \<Rightarrow> bool" where
  "contains_str [] key = (key = [])"
| "contains_str (c # s) key = (if startswith (c # s) key then True else contains_str s key)"

fun py_contains :: "string \<Rightarrow> json \<Rightarrow> py_error + bool" where
  "py_contains key (JsObj members) = Inr (map_of members key \<noteq> None)"
| "py_contains key (JsArr xs) = Inr (List.member xs (JsStr key))"
| "py_contains key (JsStr s) = Inr (contains_str s key)"
| "py_contains key JsNull = Inl TypeError"
| "py_contains key (JsBool b) = Inl TypeError"
| "py_contains key (JsNum x) = Inl TypeError"

fun py_getitem :: "json \<Rightarrow> string \<Rightarrow> py_error + json" where
  "py_getitem (JsObj members) key =
     (case map_of members key of None \<Rightarrow> Inl KeyError | Some v \<Rightarrow> Inr v)"
| "py_getitem (JsArr xs) key = Inl TypeError"
| "py_getitem (JsStr s) key = Inl TypeError"
| "py_getitem JsNull key = Inl TypeError"
| "py_getitem (JsBool b) key = Inl TypeError"
| "py_getitem (JsNum x) key = Inl TypeError"

fun py_iter :: "json \<Rightarrow> py_error + json list" where
  "py_iter (JsArr xs) = Inr xs"
| "py_iter (JsObj members) = Inr (map (\<lambda>(k, v). JsStr k) members)"
| "py_iter (JsStr s) = Inr (map (\<lambda>c. JsStr [c]) s)"
| "py_iter JsNull = Inl TypeError"
| "py_iter (JsBool b) = Inl TypeError"
| "py_iter (JsNum x) = Inl TypeError"

fun py_get :: "json \<Rightarrow> string \<Rightarrow> py_error + json option" where
  "py_get (JsObj members) key = Inr (map_of members key)"
| "py_get (JsArr xs) key = Inl AttributeError"
| "py_get (JsStr s) key = Inl AttributeError"
| "py_get JsNull key = Inl AttributeError"
| "py_get (JsBool b) key = Inl AttributeError"
| "py_get (JsNum x) key = Inl AttributeError"

text \<open>The dictionary built for a retained hit: the link is a string, the rest any value.\<close>

record normalized =
  n_title :: json
  n_link :: string
  n_snippet :: json

definition field_or_na :: "(string \<times> json) list \<Rightarrow> string \<Rightarrow> json" where
  "field_or_na members key = (case map_of members key of None \<Rightarrow> JsStr ''N/A'' | Some v \<Rightarrow> v)"

text \<open>
  The body of the loop: \<^verbatim>\<open>item.get('link')\<close> raises on a hit that is no object, and
  \<^verbatim>\<open>link.startswith\<close> on a link that is true and no string.
\<close>

fun normalize_item :: "normalized list \<Rightarrow> json \<Rightarrow> py_error + normalized list" where
  "normalize_item processed (JsObj members) =
     (case map_of members ''link'' of
        None \<Rightarrow> Inr processed
      | Some l \<Rightarrow>
          if py_truthy l then
            (case l of
               JsStr s \<Rightarrow>
                 if startswith s ''http://'' then
                   Inr (processed @
                     [\<lparr>n_title = field_or_na members ''title'', n_link = s,
                       n_snippet = field_or_na members ''snippet''\<rparr>])
                 else if startswith s ''https://'' then
                   Inr (processed @
                     [\<lparr>n_title = field_or_na members ''title'', n_link = s,
                       n_snippet = field_or_na members ''snippet''\<rparr>])
                 else Inr processed
             | JsNull \<Rightarrow> Inl AttributeError
             | JsBool b \<Rightarrow> Inl AttributeError
             | JsNum x \<Rightarrow> Inl AttributeError
             | JsArr xs \<Rightarrow> Inl AttributeError
             | JsObj kvs \<Rightarrow> Inl AttributeError)
          else Inr processed)"
| "normalize_item processed (JsArr xs) = Inl AttributeError"
| "normalize_item processed (JsStr s) = Inl AttributeError"
| "normalize_item processed JsNull = Inl AttributeError"
| "normalize_item processed (JsBool b) = Inl AttributeError"
| "normalize_item processed (JsNum x) = Inl AttributeError"

fun normalize_items :: "normalized list \<Rightarrow> json list \<Rightarrow> py_error + normalized list" where
  "normalize_items processed [] = Inr processed"
| "normalize_items processed (item # rest) =
     (case normalize_item processed item of
        Inl e \<Rightarrow> Inl e
      | Inr processed' \<Rightarrow> normalize_items processed' rest)"

definition process_search_results_json :: "json option \<Rightarrow> py_error + normalized list" where
  "process_search_results_json results_json =
     (case results_json of
        None \<Rightarrow> Inr []
      | Some results \<Rightarrow>
          if py_truthy results then
            (case py_contains ''items'' results of
               Inl e \<Rightarrow> Inl e
             | Inr has_items \<Rightarrow>
                 if has_items then
                   (case py_getitem results ''items'' of
                      Inl e \<Rightarrow> Inl e
                    | Inr items \<Rightarrow>
                        (case py_iter items of
                           Inl e \<Rightarrow> Inl e
                         | Inr its \<Rightarrow> normalize_items [] its))
                 else Inr [])
          else Inr [])"

section \<open>Notions used by the properties\<close>

text \<open>The network errors of a search request: the two \<^verbatim>\<open>except\<close> clauses for \<^verbatim>\<open>Timeout\<close>
  and \<^verbatim>\<open>RequestException\<close>.\<close>

fun network_error :: "http_outcome \<Rightarrow> bool" where
  "network_error HttpTimeout = True"
| "network_error HttpRequestException = True"
| "network_error HttpJSONDecodeError = False"
| "network_error (HttpOk r) = False"

text \<open>The order of the three counters of a query, and the count of its raw records.\<close>

definition counters_ok :: "'w qstate \<Rightarrow> bool" where
  "counters_ok st =
     (0 \<le> extractions_success (counters st) \<and>
      extractions_success (counters st) \<le> urls_processed (counters st) \<and>
      urls_processed (counters st) \<le> raw_saved (counters st) \<and>
      raw_saved (counters st) = int (length (raw_results_for_query st)))"

text \<open>The search requests among the calls of a run.\<close>

fun is_search :: "event \<Rightarrow> bool" where
  "is_search (EvSearch q s n) = True"
| "is_search e = False"

text \<open>
  What holds of the raw records when the loop over the pages reaches page \<open>p\<close>, for the
  page size \<open>k\<close>: the ranks of every page follow the formula, no record is of a later
  page, an empty list at a later page means the loop has stopped, and the first rank
  is 1.
\<close>

definition rank_inv :: "int \<Rightarrow> int \<Rightarrow> 'w qstate \<Rightarrow> bool" where
  "rank_inv k p st =
     ((\<forall>p'. map approx_rank (filter (\<lambda>r. search_page r = p' + 1) (raw_results_for_query st))
            = map (\<lambda>i. p' * k + int i + 1)
                [0..<length (filter (\<lambda>r. search_page r = p' + 1) (raw_results_for_query st))]) \<and>
      (\<forall>r \<in> set (raw_results_for_query st). search_page r \<le> p) \<and>
      (raw_results_for_query st = [] \<longrightarrow> p = 0 \<or> stop_fetching_pages st) \<and>
      (raw_results_for_query st \<noteq> [] \<longrightarrow> approx_rank (hd (raw_results_for_query st)) = 1))"

text \<open>The ranks grow strictly and stay below the first rank of page \<open>p\<close>.\<close>

definition sorted_inv :: "int \<Rightarrow> int \<Rightarrow> 'w qstate \<Rightarrow> bool" where
  "sorted_inv k p st =
     (sorted_wrt (<) (map approx_rank (raw_results_for_query st)) \<and>
      (\<forall>r \<in> set (raw_results_for_query st). approx_rank r \<le> p * k) \<and>
      (raw_results_for_query st = [] \<or> 0 \<le> k))"

text \<open>
  The length of the normalized list of the page of index \<open>page\<close>, when the search call is
  made in the world \<open>w\<close> and returns an object; and the state of a query when the request
  for page \<open>p\<close> is sent, every earlier page having been processed.
\<close>

definition page_length :: "'w env \<Rightarrow> config \<Rightarrow> args \<Rightarrow> string \<Rightarrow> int \<Rightarrow> 'w \<Rightarrow> int option" where
  "page_length env cfg a q page w =
     (case fst (search_google_cse env (API_KEY cfg) (CSE_ID cfg) q (num_results a)
                  (page * num_results a + 1) (api_kwargs a) w) of
        Inl e \<Rightarrow> None
      | Inr None \<Rightarrow> None
      | Inr (Some results_json) \<Rightarrow>
          Some (int (length (process_search_results (Some results_json)))))"

fun state_before :: "'w env \<Rightarrow> config \<Rightarrow> args \<Rightarrow> string \<Rightarrow> 'w \<Rightarrow> nat \<Rightarrow> 'w qstate" where
  "state_before env cfg a q w 0 = init_qstate w"
| "state_before env cfg a q w (Suc p) =
     page_body env cfg a q (int p) (state_before env cfg a q w p)"

text \<open>
  The test \<^verbatim>\<open>process_search_results\<close> makes on a hit, and the dictionary it keeps of one
  that passes: the link is a non-empty string that starts with \<^verbatim>\<open>http://\<close> or
  \<^verbatim>\<open>https://\<close>.
\<close>

definition has_http_link :: "cse_item \<Rightarrow> bool" where
  "has_http_link item =
     (case item_link item of
        Some (JStr l) \<Rightarrow> l \<noteq> [] \<and> (startswith l ''http://'' \<or> startswith l ''https://'')
      | Some JNull \<Rightarrow> False
      | None \<Rightarrow> False)"

definition retained :: "cse_item \<Rightarrow> search_item" where
  "retained item =
     \<lparr>title = get_default (item_title item), link = get_default (item_link item),
      snippet = get_default (item_snippet item)\<rparr>"

text \<open>
  The same test and the same dictionary on any JSON value, and the hits on which the test
  can be made without an exception: objects whose link is absent, false in Python's
  sense, or a string.
\<close>

fun link_testable :: "json \<Rightarrow> bool" where
  "link_testable (JsObj members) =
     (case map_of members ''link'' of
        None \<Rightarrow> True
      | Some (JsStr s) \<Rightarrow> True
      | Some JsNull \<Rightarrow> True
      | Some (JsBool b) \<Rightarrow> \<not> b
      | Some (JsNum x) \<Rightarrow> x = 0
      | Some (JsArr xs) \<Rightarrow> xs = []
      | Some (JsObj kvs) \<Rightarrow> kvs = [])"
| "link_testable (JsArr xs) = False"
| "link_testable (JsStr s) = False"
| "link_testable JsNull = False"
| "link_testable (JsBool b) = False"
| "link_testable (JsNum x) = False"

fun has_http_link_json :: "json \<Rightarrow> bool" where
  "has_http_link_json (JsObj members) =
     (case map_of members ''link'' of
        Some (JsStr s) \<Rightarrow> s \<noteq> [] \<and> (startswith s ''http://'' \<or> startswith s ''https://'')
      | Some JsNull \<Rightarrow> False
      | Some (JsBool b) \<Rightarrow> False
      | Some (JsNum x) \<Rightarrow> False
      | Some (JsArr xs) \<Rightarrow> False
      | Some (JsObj kvs) \<Rightarrow> False
      | None \<Rightarrow> False)"
| "has_http_link_json (JsArr xs) = False"
| "has_http_link_json (JsStr s) = False"
| "has_http_link_json JsNull = False"
| "has_http_link_json (JsBool b) = False"
| "has_http_link_json (JsNum x) = False"

fun kept :: "json \<Rightarrow> normalized" where
  "kept (JsObj members) =
     \<lparr>n_title = field_or_na members ''title'',
      n_link = (case map_of members ''link'' of Some (JsStr s) \<Rightarrow> s | _ \<Rightarrow> []),
      n_snippet = field_or_na members ''snippet''\<rparr>"
| "kept other = \<lparr>n_title = JsStr ''N/A'', n_link = [], n_snippet = JsStr ''N/A''\<rparr>"

text \<open>A typed answer as the JSON value it stands for.\<close>

fun json_of_jval :: "jval \<Rightarrow> json" where
  "json_of_jval JNull = JsNull"
| "json_of_jval (JStr s) = JsStr s"

definition member_of :: "string \<Rightarrow> jval option \<Rightarrow> (string \<times> json) list" where
  "member_of key v = (case v of None \<Rightarrow> [] | Some x \<Rightarrow> [(key, json_of_jval x)])"

definition json_of_item :: "cse_item \<Rightarrow> json" where
  "json_of_item item =
     JsObj (member_of ''title'' (item_title item) @ member_of ''link'' (item_link item) @
            member_of ''snippet'' (item_snippet item))"

definition json_of_response :: "cse_response \<Rightarrow> json" where
  "json_of_response r =
     JsObj ((if resp_error r then [(''error'', JsObj [])] else []) @
            (case resp_items r of
               None \<Rightarrow> []
             | Some its \<Rightarrow> [(''items'', JsArr (map json_of_item its))]))"

definition normalized_of :: "search_item \<Rightarrow> normalized" where
  "normalized_of s =
     \<lparr>n_title = json_of_jval (title s),
      n_link = (case link s of JStr l \<Rightarrow> l | JNull \<Rightarrow> []),
      n_snippet = json_of_jval (snippet s)\<rparr>"

text \<open>
  For comparison with that test, the spec's words ``a syntactically valid http(s) link'',
  read as little as a URL syntax asks: the scheme, then a host that is not empty, and no
  space anywhere. What this rejects, RFC 3986 and RFC 9110 reject.
\<close>

definition host_part :: "string \<Rightarrow> string" where
  "host_part rest = takeWhile (\<lambda>c. c \<notin> set ''/?#'') rest"

definition spec_valid_http_url :: "string \<Rightarrow> bool" where
  "spec_valid_http_url l =
     ((startswith l ''http://'' \<and> host_part (drop 7 l) \<noteq> [] \<or>
       startswith l ''https://'' \<and> host_part (drop 8 l) \<noteq> []) \<and>
      CHR '' '' \<notin> set l)"

text \<open>
  The suspensions among the calls of a run, the files it tried to open and the records
  it handed to \<^verbatim>\<open>save_jsonl_record\<close>, in order.
\<close>

fun is_sleep :: "event \<Rightarrow> bool" where
  "is_sleep (EvSleep d) = True"
| "is_sleep e = False"



text \<open>
  The suspensions of a run number one less than the queries it has processed, and none
  when it has processed none.
\<close>

definition delay_inv :: "'w rstate \<Rightarrow> bool" where
  "delay_inv rs =
     (0 \<le> global_query_index rs \<and>
      int (length (filter is_sleep (r_trace rs))) = max 0 (global_query_index rs - 1))"

section \<open>Concrete runs\<close>

text \<open>
  A world without state in which every search request meets a network error, every
  other call succeeds, and the dataset holds two queries.
\<close>

definition offline_env :: "unit env" where
  "offline_env =
     \<lparr>requests_get = (\<lambda>p w. (HttpRequestException, w)),
      extract_main_text_requests = (\<lambda>u t w. (None, w)),
      read_queries_from_vifactcheck = (\<lambda>c w. (Some [''q1'', ''q2''], w)),
      makedirs = (\<lambda>d w. (True, w)),
      open_w = (\<lambda>f w. (True, w)),
      dump_and_write = (\<lambda>f r w. (True, w)),
      close_file = (\<lambda>f w. (True, w)),
      time_sleep = (\<lambda>d w. w)\<rparr>"

definition test_config :: config where
  "test_config = \<lparr>API_KEY = Some ''key'', CSE_ID = Some ''cx''\<rparr>"

text \<open>The arguments of a run whose command line names the column only.\<close>

definition column_only :: cmdline where
  "column_only =
     \<lparr>cl_query_column = ''Statement'', cl_pages = None, cl_num_results = None, cl_delay = None,
      cl_timeout = None, cl_site_search = None, cl_batch_size = None,
      cl_search_output_base = None, cl_extracted_output_base = None\<rparr>"

text \<open>
  A world in which every search request is answered with the same two hits, whatever
  number of hits it asks for.
\<close>

definition generous_env :: "unit env" where
  "generous_env =
     \<lparr>requests_get = (\<lambda>p w. (HttpOk \<lparr>resp_error = False, resp_items = Some
          [\<lparr>item_title = Some (JStr ''A''), item_link = Some (JStr ''https://a.example''), item_snippet = None\<rparr>,
           \<lparr>item_title = Some (JStr ''B''), item_link = Some (JStr ''https://b.example''), item_snippet = None\<rparr>]\<rparr>, w)),
      extract_main_text_requests = (\<lambda>u t w. (None, w)),
      read_queries_from_vifactcheck = (\<lambda>c w. (Some [''q1'', ''q2''], w)),
      makedirs = (\<lambda>d w. (True, w)),
      open_w = (\<lambda>f w. (True, w)),
      dump_and_write = (\<lambda>f r w. (True, w)),
      close_file = (\<lambda>f w. (True, w)),
      time_sleep = (\<lambda>d w. w)\<rparr>"

definition two_pages_of_one :: cmdline where
  "two_pages_of_one = column_only\<lparr>cl_pages := Some 2, cl_num_results := Some 1\<rparr>"

definition two_pages_of_two :: cmdline where
  "two_pages_of_two = column_only\<lparr>cl_pages := Some 2, cl_num_results := Some 2\<rparr>"

text \<open>
  A world that counts the search requests it has answered: it answers with two hits,
  and with one hit when three requests came before.
\<close>

definition hit_A :: cse_item where
  "hit_A = \<lparr>item_title = Some (JStr ''A''), item_link = Some (JStr ''https://a.example''),
            item_snippet = Some (JStr ''s1'')\<rparr>"

definition counting_env :: "nat env" where
  "counting_env =
     \<lparr>requests_get =
        (\<lambda>p calls. (HttpOk \<lparr>resp_error = False,
                              resp_items = Some (if calls = 3 then [hit_A] else [hit_A, hit_A])\<rparr>,
                      Suc calls)),
      extract_main_text_requests = (\<lambda>u t calls. (Some ''text'', calls)),
      read_queries_from_vifactcheck = (\<lambda>c calls. (Some [''q1'', ''q2''], calls)),
      makedirs = (\<lambda>d calls. (True, calls)),
      open_w = (\<lambda>f calls. (True, calls)),
      dump_and_write = (\<lambda>f r calls. (True, calls)),
      close_file = (\<lambda>f calls. (True, calls)),
      time_sleep = (\<lambda>d calls. calls)\<rparr>"

definition six_pages_of_two :: cmdline where
  "six_pages_of_two = column_only\<lparr>cl_pages := Some 6, cl_num_results := Some 2\<rparr>"

text \<open>
  The example of the spec: the provider answers with the hit A, linked with \<^verbatim>\<open>https\<close>,
  and the hit B, linked with \<^verbatim>\<open>ftp\<close>; the extraction is any function.
\<close>

definition example_response :: cse_response where
  "example_response =
     \<lparr>resp_error = False,
      resp_items = Some
        [\<lparr>item_title = Some (JStr ''A''), item_link = Some (JStr ''https://a.example''),
          item_snippet = Some (JStr ''s1'')\<rparr>,
         \<lparr>item_title = Some (JStr ''B''), item_link = Some (JStr ''ftp://bad''),
          item_snippet = Some (JStr ''s2'')\<rparr>]\<rparr>"

definition example_env :: "(string \<Rightarrow> int \<Rightarrow> 'w \<Rightarrow> string option \<times> 'w) \<Rightarrow> 'w env" where
  "example_env extraction =
     \<lparr>requests_get = (\<lambda>p w. (HttpOk example_response, w)),
      extract_main_text_requests = extraction,
      read_queries_from_vifactcheck = (\<lambda>c w. (Some [''test''], w)),
      makedirs = (\<lambda>d w. (True, w)),
      open_w = (\<lambda>f w. (True, w)),
      dump_and_write = (\<lambda>f r w. (True, w)),
      close_file = (\<lambda>f w. (True, w)),
      time_sleep = (\<lambda>d w. w)\<rparr>"

definition one_page_of_ten :: cmdline where
  "one_page_of_ten = column_only\<lparr>cl_pages := Some 1, cl_num_results := Some 10\<rparr>"

text \<open>A command line that asks for batches of one query.\<close>

definition one_per_batch :: cmdline where
  "one_per_batch = column_only\<lparr>cl_batch_size := Some 1\<rparr>"



text \<open>
  Five hits: one linked with \<^verbatim>\<open>https\<close>, one with \<^verbatim>\<open>ftp\<close>, one whose link is the number 0,
  one whose link is \<^verbatim>\<open>null\<close> and one without a link.
\<close>

definition mixed_items :: "json list" where
  "mixed_items =
     [JsObj [(''title'', JsStr ''A''), (''link'', JsStr ''https://a.example''),
             (''snippet'', JsStr ''s1'')],
      JsObj [(''title'', JsStr ''B''), (''link'', JsStr ''ftp://bad''), (''snippet'', JsStr ''s2'')],
      JsObj [(''title'', JsStr ''C''), (''link'', JsNum 0)],
      JsObj [(''title'', JsStr ''D''), (''link'', JsNull)],
      JsObj [(''snippet'', JsStr ''s5'')]]"

section \<open>Evaluation of concrete runs\<close>

lemmas config_defs =
  DEFAULT_CSE_NUM_RESULTS_def DEFAULT_REQUEST_DELAY_def DEFAULT_EXTRACTION_TIMEOUT_def
  DEFAULT_SEARCH_OUTPUT_BASE_def DEFAULT_EXTRACTED_OUTPUT_BASE_def

lemmas query_defs =
  process_single_query_def range_py_def upto.simps init_qstate_def page_body_def
  search_google_cse_def api_kwargs_def process_search_results_def retain_item_def
  get_default_def enumerate_py_def item_body_def prepare_raw_def raw_entry_def
  append_final_def extract_text_def final_record_def Let_def

lemmas run_defs =
  run_process_def validate_config_def try_batches_def batch_generator_def batch_from.simps
  batch_body_def save_batch_def write_batch_file_def query_body_def apply_delay_def
  add_counters_def init_rstate_def

section \<open>Properties of \_process\_single\_query\<close>

lemma item_body_raw_length:
  "length (raw_results_for_query (item_body env a q page si ri item st))
     = Suc (length (raw_results_for_query st))"
  by (auto simp: item_body_def prepare_raw_def append_final_def extract_text_def Let_def
      split: jval.splits prod.splits)

lemma item_body_extracted_length:
  "length (extracted_results_for_query (item_body env a q page si ri item st))
     = Suc (length (extracted_results_for_query st))"
  by (auto simp: item_body_def prepare_raw_def append_final_def extract_text_def Let_def
      split: jval.splits prod.splits)

lemma item_body_extracted_text:
  "extracted_text (last (extracted_results_for_query (item_body env a q page si ri item st))) =
     (case link item of
        JNull \<Rightarrow> None
      | JStr u \<Rightarrow>
          if u = [] then None
          else fst (extract_main_text_requests env u (timeout a) (q_world st)))"
  by (auto simp: item_body_def prepare_raw_def append_final_def extract_text_def
        final_record_def Let_def split: jval.splits prod.splits)

lemma item_body_stop:
  "stop_fetching_pages (item_body env a q page si ri item st) = stop_fetching_pages st"
  by (auto simp: item_body_def prepare_raw_def append_final_def extract_text_def Let_def
      split: jval.splits prod.splits)

lemma items_loop_lengths:
  "length (raw_results_for_query (items_loop env a q page si xs st))
     = length (raw_results_for_query st) + length xs"
  "length (extracted_results_for_query (items_loop env a q page si xs st))
     = length (extracted_results_for_query st) + length xs"
  by (induction xs arbitrary: st)
    (auto simp: item_body_raw_length item_body_extracted_length)

text \<open>
  What a turn of the page loop does, by the answer of the search call: the two failures
  and the empty page only set the flag.
\<close>

lemma page_body_unfold:
  assumes "search_google_cse env (API_KEY cfg) (CSE_ID cfg) q (num_results a)
             (page * num_results a + 1) (api_kwargs a) (q_world st) = (res, w', evs)"
  shows "page_body env cfg a q page st =
     (case res of
        Inl e \<Rightarrow> st\<lparr>q_world := w', q_trace := q_trace st @ evs, stop_fetching_pages := True\<rparr>
      | Inr None \<Rightarrow>
          st\<lparr>q_world := w', q_trace := q_trace st @ evs, stop_fetching_pages := True\<rparr>
      | Inr (Some r) \<Rightarrow>
          if process_search_results (Some r) \<noteq> [] then
            (if int (length (process_search_results (Some r))) < num_results a
             then (items_loop env a q page (page * num_results a + 1)
                     (enumerate_py (process_search_results (Some r)))
                     (st\<lparr>q_world := w', q_trace := q_trace st @ evs\<rparr>))
                  \<lparr>stop_fetching_pages := True\<rparr>
             else items_loop env a q page (page * num_results a + 1)
                     (enumerate_py (process_search_results (Some r)))
                     (st\<lparr>q_world := w', q_trace := q_trace st @ evs\<rparr>))
          else st\<lparr>q_world := w', q_trace := q_trace st @ evs, stop_fetching_pages := True\<rparr>)"
  using assms unfolding page_body_def Let_def
  by (simp split: sum.splits option.splits)

lemma search_result_cases:
  obtains res w' evs where
    "search_google_cse env (API_KEY cfg) (CSE_ID cfg) q (num_results a)
       (page * num_results a + 1) (api_kwargs a) (q_world st) = (res, w', evs)"
  by (metis prod_cases3)

lemma pages_loop_stopped:
  "stop_fetching_pages st \<Longrightarrow> pages_loop env cfg a q ps st = st"
  by (cases ps) auto

lemma init_not_stopped: "\<not> stop_fetching_pages (init_qstate w)"
  by (simp add: init_qstate_def)

lemma range_py_unfold: "range_py n = (if n \<le> 0 then [] else 0 # [1..n - 1])"
  by (simp add: range_py_def upto_rec1)

subsection \<open>One extracted record for every raw record\<close>

lemma page_body_diff:
  "length (extracted_results_for_query (page_body env cfg a q page st))
     + length (raw_results_for_query st)
   = length (raw_results_for_query (page_body env cfg a q page st))
     + length (extracted_results_for_query st)"
proof -
  obtain res w' evs where
    s: "search_google_cse env (API_KEY cfg) (CSE_ID cfg) q (num_results a)
          (page * num_results a + 1) (api_kwargs a) (q_world st) = (res, w', evs)"
    by (rule search_result_cases)
  show ?thesis
    unfolding page_body_unfold [OF s]
    by (simp add: items_loop_lengths split: sum.splits option.splits)
qed

lemma pages_loop_diff:
  "length (extracted_results_for_query (pages_loop env cfg a q ps st))
     + length (raw_results_for_query st)
   = length (raw_results_for_query (pages_loop env cfg a q ps st))
     + length (extracted_results_for_query st)"
proof (induction ps arbitrary: st)
  case Nil
  then show ?case by simp
next
  case (Cons p ps)
  show ?case
    using Cons.IH [of "page_body env cfg a q p st"] page_body_diff [of env cfg a q p st]
    by simp
qed

text \<open>
  C2. Whatever the search provider and the extraction answer, the two lists that
  \<^verbatim>\<open>_process_single_query\<close> returns have the same length. Every turn of the loop over the
  hits of a page appends one record to each list, also for a hit without a link and for
  a failed extraction; the text of the extracted record is then \<^verbatim>\<open>None\<close>, and otherwise
  what the extraction returned.
\<close>

theorem one_extracted_per_raw:
  "length (extracted_results_for_query (process_single_query env cfg a q w))
     = length (raw_results_for_query (process_single_query env cfg a q w)) \<and>
   length (raw_results_for_query (item_body env a q page si ri item st))
     = Suc (length (raw_results_for_query st)) \<and>
   length (extracted_results_for_query (item_body env a q page si ri item st))
     = Suc (length (extracted_results_for_query st)) \<and>
   extracted_text (last (extracted_results_for_query (item_body env a q page si ri item st))) =
     (case link item of
        JNull \<Rightarrow> None
      | JStr u \<Rightarrow>
          if u = [] then None
          else fst (extract_main_text_requests env u (timeout a) (q_world st)))"
  using pages_loop_diff [of env cfg a q "range_py (pages a)" "init_qstate w"]
  by (simp add: process_single_query_def init_qstate_def item_body_raw_length
        item_body_extracted_length item_body_extracted_text)

subsection \<open>The counters of a query\<close>

lemma counters_ok_frame:
  "counters_ok (st\<lparr>stop_fetching_pages := b\<rparr>) = counters_ok st"
  "counters_ok (st\<lparr>q_world := w', q_trace := t\<rparr>) = counters_ok st"
  by (simp_all add: counters_ok_def)

lemma item_body_counters:
  "counters_ok st \<Longrightarrow> counters_ok (item_body env a q page si ri item st)"
  by (auto simp: counters_ok_def item_body_def prepare_raw_def append_final_def
        extract_text_def Let_def split: jval.splits prod.splits)

lemma items_loop_counters:
  "counters_ok st \<Longrightarrow> counters_ok (items_loop env a q page si xs st)"
  by (induction xs arbitrary: st) (auto simp: item_body_counters)

lemma page_body_counters:
  assumes "counters_ok st"
  shows "counters_ok (page_body env cfg a q page st)"
proof -
  obtain res w' evs where
    s: "search_google_cse env (API_KEY cfg) (CSE_ID cfg) q (num_results a)
          (page * num_results a + 1) (api_kwargs a) (q_world st) = (res, w', evs)"
    by (rule search_result_cases)
  show ?thesis
    unfolding page_body_unfold [OF s] using assms
    by (simp add: items_loop_counters counters_ok_frame split: sum.splits option.splits)
qed

lemma pages_loop_counters:
  "counters_ok st \<Longrightarrow> counters_ok (pages_loop env cfg a q ps st)"
  by (induction ps arbitrary: st) (auto simp: page_body_counters)

lemma init_counters_ok: "counters_ok (init_qstate w)"
  by (simp add: counters_ok_def init_qstate_def)

text \<open>
  C10. The counters that \<^verbatim>\<open>_process_single_query\<close> returns are ordered,
  \<^verbatim>\<open>extractions_success <= urls_processed <= raw_saved\<close>, and \<^verbatim>\<open>raw_saved\<close> is the length
  of the returned list of raw records.
\<close>

theorem counters_ordered:
  "extractions_success (counters (process_single_query env cfg a q w))
     \<le> urls_processed (counters (process_single_query env cfg a q w)) \<and>
   urls_processed (counters (process_single_query env cfg a q w))
     \<le> raw_saved (counters (process_single_query env cfg a q w)) \<and>
   raw_saved (counters (process_single_query env cfg a q w))
     = int (length (raw_results_for_query (process_single_query env cfg a q w)))"
  using pages_loop_counters [OF init_counters_ok, of env cfg a q "range_py (pages a)" w]
  by (simp add: process_single_query_def counters_ok_def)

subsection \<open>A network error on the first page\<close>

lemma search_google_cse_network_error:
  assumes "API_KEY cfg = Some k" and "CSE_ID cfg = Some c" and "k \<noteq> []" and "c \<noteq> []"
    and "network_error (fst (requests_get env
           \<lparr>p_key = k, p_cx = c, p_q = q, p_num = num, p_start = start,
            p_siteSearch = site\<rparr> w))"
  shows "fst (search_google_cse env (API_KEY cfg) (CSE_ID cfg) q num start site w)
           \<in> {Inl RequestException, Inr None}"
  using assms
  by (auto simp: search_google_cse_def split: prod.splits http_outcome.splits)

lemma page_body_failed:
  assumes "fst (search_google_cse env (API_KEY cfg) (CSE_ID cfg) q (num_results a)
                  (page * num_results a + 1) (api_kwargs a) (q_world st))
             \<in> {Inl RequestException, Inr None}"
  shows "stop_fetching_pages (page_body env cfg a q page st)"
    and "raw_results_for_query (page_body env cfg a q page st) = raw_results_for_query st"
    and "extracted_results_for_query (page_body env cfg a q page st)
           = extracted_results_for_query st"
    and "counters (page_body env cfg a q page st) = counters st"
proof -
  obtain res w' evs where
    s: "search_google_cse env (API_KEY cfg) (CSE_ID cfg) q (num_results a)
          (page * num_results a + 1) (api_kwargs a) (q_world st) = (res, w', evs)"
    by (rule search_result_cases)
  with assms have r: "res = Inl RequestException \<or> res = Inr None" by simp
  show "stop_fetching_pages (page_body env cfg a q page st)"
    and "raw_results_for_query (page_body env cfg a q page st) = raw_results_for_query st"
    and "extracted_results_for_query (page_body env cfg a q page st)
           = extracted_results_for_query st"
    and "counters (page_body env cfg a q page st) = counters st"
    unfolding page_body_unfold [OF s] using r by auto
qed

text \<open>
  C6. With both secrets set, when the request for the first page (start index 1) meets
  a network error, a timeout or another \<^verbatim>\<open>RequestException\<close>, the query returns two
  empty lists and three counters at zero. The function is total: the re-raised
  exception is a value that the page loop consumes, and no other is raised.
\<close>

theorem first_page_network_error:
  assumes "API_KEY cfg = Some k" and "CSE_ID cfg = Some c" and "k \<noteq> []" and "c \<noteq> []"
    and "network_error (fst (requests_get env
           \<lparr>p_key = k, p_cx = c, p_q = q, p_num = num_results a, p_start = 1,
            p_siteSearch = api_kwargs a\<rparr> w))"
  shows "raw_results_for_query (process_single_query env cfg a q w) = [] \<and>
         extracted_results_for_query (process_single_query env cfg a q w) = [] \<and>
         counters (process_single_query env cfg a q w)
           = \<lparr>raw_saved = 0, urls_processed = 0, extractions_success = 0\<rparr>"
proof (cases "pages a \<le> 0")
  case True
  then show ?thesis
    by (simp add: process_single_query_def range_py_unfold init_qstate_def)
next
  case False
  let ?st = "init_qstate w"
  have "fst (search_google_cse env (API_KEY cfg) (CSE_ID cfg) q (num_results a) 1
               (api_kwargs a) w) \<in> {Inl RequestException, Inr None}"
    using assms by (rule search_google_cse_network_error)
  then have call:
    "fst (search_google_cse env (API_KEY cfg) (CSE_ID cfg) q (num_results a)
            (0 * num_results a + 1) (api_kwargs a) (q_world ?st))
       \<in> {Inl RequestException, Inr None}"
    by (simp add: init_qstate_def)
  note pb = page_body_failed [OF call]
  have "process_single_query env cfg a q w = page_body env cfg a q 0 ?st"
    using False pb(1)
    by (simp add: process_single_query_def range_py_unfold pages_loop_stopped
          init_not_stopped)
  then show ?thesis
    using pb(2-4) by (simp add: init_qstate_def)
qed

theorem first_page_network_error_witness:
  "raw_results_for_query
     (process_single_query offline_env test_config (parse_arguments column_only) ''q1'' ()) = [] \<and>
   extracted_results_for_query
     (process_single_query offline_env test_config (parse_arguments column_only) ''q1'' ()) = [] \<and>
   counters (process_single_query offline_env test_config (parse_arguments column_only) ''q1'' ())
     = \<lparr>raw_saved = 0, urls_processed = 0, extractions_success = 0\<rparr>"
  using first_page_network_error
          [of test_config "''key''" "''cx''" offline_env "''q1''" "parse_arguments column_only" "()"]
  by (simp add: test_config_def offline_env_def)

subsection \<open>The ranks of the records\<close>

lemma item_body_raw:
  "raw_results_for_query (item_body env a q page si ri item st)
     = raw_results_for_query st @ [raw_entry q page (si + ri) item]"
  by (auto simp: item_body_def prepare_raw_def append_final_def extract_text_def Let_def
      split: jval.splits prod.splits)

lemma items_loop_raw:
  "raw_results_for_query (items_loop env a q page si ixs st)
     = raw_results_for_query st @ map (\<lambda>(i, item). raw_entry q page (si + i) item) ixs"
  by (induction ixs arbitrary: st) (auto simp: item_body_raw)

lemma length_enumerate_from: "length (enumerate_from i xs) = length xs"
  by (induction xs arbitrary: i) auto

lemma fst_enumerate_from:
  "map fst (enumerate_from i xs) = map (\<lambda>j. i + int j) [0..<length xs]"
proof (induction xs arbitrary: i)
  case Nil
  then show ?case by simp
next
  case (Cons x xs)
  have "map (\<lambda>j. i + int j) [0..<Suc (length xs)]
          = i # map (\<lambda>j. i + 1 + int j) [0..<length xs]"
    by (simp add: map_upt_Suc del: upt_Suc)
  then show ?case using Cons.IH [of "i + 1"] by simp
qed

lemma ranks_of_ixs:
  "map approx_rank (map (\<lambda>(i, item). raw_entry q page (si + i) item) ixs)
     = map (\<lambda>i. si + i) (map fst ixs)"
  by (induction ixs) (auto simp: raw_entry_def)

lemma ranks_of_page:
  "map approx_rank (map (\<lambda>(i, item). raw_entry q page (si + i) item) (enumerate_from 0 xs))
     = map (\<lambda>j. si + int j) [0..<length xs]"
  unfolding ranks_of_ixs fst_enumerate_from by simp

lemma pages_of_page:
  "r \<in> set (map (\<lambda>(i, item). raw_entry q page (si + i) item) ixs) \<Longrightarrow> search_page r = page + 1"
  by (auto simp: raw_entry_def)

lemma items_loop_stop:
  "stop_fetching_pages (items_loop env a q page si ixs st) = stop_fetching_pages st"
  by (induction env a q page si ixs st rule: items_loop.induct) (simp_all add: item_body_stop)

lemma search_google_cse_Some:
  assumes "search_google_cse env ak ci q n s site w = (Inr (Some r), w', evs)"
  shows "\<exists>params. fst (requests_get env params w) = HttpOk r \<and> p_num params = n"
proof -
  from assms obtain k c where kc: "ak = Some k" "ci = Some c" "k \<noteq> []" "c \<noteq> []"
    by (auto simp: search_google_cse_def split: option.splits if_splits)
  let ?p = "\<lparr>p_key = k, p_cx = c, p_q = q, p_num = n, p_start = s, p_siteSearch = site\<rparr>"
  from assms kc have "fst (requests_get env ?p w) = HttpOk r"
    by (auto simp: search_google_cse_def split: prod.splits http_outcome.splits if_splits)
  then show ?thesis by (intro exI [of _ ?p]) simp
qed

text \<open>
  The records a page adds: their ranks count up from the start index, they carry the
  number of the page, and a page that adds none stops the loop.
\<close>

lemma page_body_raw:
  obtains news where
    "raw_results_for_query (page_body env cfg a q p st) = raw_results_for_query st @ news"
    "map approx_rank news = map (\<lambda>j. p * num_results a + 1 + int j) [0..<length news]"
    "\<forall>r \<in> set news. search_page r = p + 1"
    "news = [] \<longrightarrow> stop_fetching_pages (page_body env cfg a q p st)"
    "(\<forall>params w r. p_num params = num_results a \<and>
          fst (requests_get env params w) = HttpOk r \<longrightarrow>
        int (length (process_search_results (Some r))) \<le> num_results a)
     \<longrightarrow> news = [] \<or> int (length news) \<le> num_results a"
proof -
  obtain res w' evs where
    s: "search_google_cse env (API_KEY cfg) (CSE_ID cfg) q (num_results a)
          (p * num_results a + 1) (api_kwargs a) (q_world st) = (res, w', evs)"
    by (rule search_result_cases)
  note pb = page_body_unfold [OF s]
  consider (fail) "res = Inr None \<or> (\<exists>e. res = Inl e)"
    | (empty) r where "res = Inr (Some r)" "process_search_results (Some r) = []"
    | (items) r where "res = Inr (Some r)" "process_search_results (Some r) \<noteq> []"
    by (cases res) (auto split: option.splits)
  then show thesis
  proof cases
    case fail
    then have "raw_results_for_query (page_body env cfg a q p st) = raw_results_for_query st @ []"
      and "stop_fetching_pages (page_body env cfg a q p st)"
      unfolding pb by auto
    then show ?thesis by (intro that [of "[]"]) simp_all
  next
    case empty
    then have "raw_results_for_query (page_body env cfg a q p st) = raw_results_for_query st @ []"
      and "stop_fetching_pages (page_body env cfg a q p st)"
      unfolding pb by auto
    then show ?thesis by (intro that [of "[]"]) simp_all
  next
    case items
    let ?xs = "process_search_results (Some r)"
    let ?news = "map (\<lambda>(i, item). raw_entry q p (p * num_results a + 1 + i) item)
                   (enumerate_from 0 ?xs)"
    have raw: "raw_results_for_query (page_body env cfg a q p st)
                 = raw_results_for_query st @ ?news"
      unfolding pb using items by (simp add: items_loop_raw enumerate_py_def)
    have len: "length ?news = length ?xs"
      by (simp add: length_enumerate_from)
    have ranks: "map approx_rank ?news
                   = map (\<lambda>j. p * num_results a + 1 + int j) [0..<length ?news]"
      unfolding len by (rule ranks_of_page)
    have pages: "\<forall>r \<in> set ?news. search_page r = p + 1"
      using pages_of_page by blast
    have nonempty: "?news \<noteq> []"
      using items(2) len by (metis length_0_conv)
    obtain params where
      params: "fst (requests_get env params (q_world st)) = HttpOk r"
        "p_num params = num_results a"
      using search_google_cse_Some [OF s [unfolded items(1)]] by blast
    have bound: "(\<forall>params w r. p_num params = num_results a \<and>
          fst (requests_get env params w) = HttpOk r \<longrightarrow>
        int (length (process_search_results (Some r))) \<le> num_results a)
     \<longrightarrow> ?news = [] \<or> int (length ?news) \<le> num_results a"
    proof (intro impI disjI2)
      assume "\<forall>params w r. p_num params = num_results a \<and>
          fst (requests_get env params w) = HttpOk r \<longrightarrow>
        int (length (process_search_results (Some r))) \<le> num_results a"
      with params have "int (length ?xs) \<le> num_results a" by blast
      then show "int (length ?news) \<le> num_results a" unfolding len .
    qed
    show ?thesis
    proof (rule that [of ?news])
      show "?news = [] \<longrightarrow> stop_fetching_pages (page_body env cfg a q p st)"
        using nonempty by simp
    qed (fact raw ranks pages bound)+
  qed
qed

text \<open>Induction over the pages \<open>p, p + 1, \<dots>\<close> with an invariant that knows the page.\<close>

lemma pages_loop_upto_induct:
  assumes "Inv p st"
    and step: "\<And>p st. Inv p st \<Longrightarrow> \<not> stop_fetching_pages st
                 \<Longrightarrow> Inv (p + 1) (page_body env cfg a q p st)"
  shows "\<exists>p'. Inv p' (pages_loop env cfg a q [p..m] st)"
  using assms(1)
proof (induction "nat (m + 1 - p)" arbitrary: p st)
  case 0
  then have "[p..m] = []" by simp
  with "0.prems" show ?case by auto
next
  case (Suc n)
  then have "[p..m] = p # [p + 1..m]" by (simp add: upto_rec1)
  show ?case
  proof (cases "stop_fetching_pages st")
    case True
    then show ?thesis using Suc.prems by (auto simp: pages_loop_stopped)
  next
    case False
    have "n = nat (m + 1 - (p + 1))" using Suc.hyps(2) by simp
    from Suc.hyps(1) [OF this step [OF Suc.prems False]]
    show ?thesis
      using False \<open>[p..m] = p # [p + 1..m]\<close> by simp
  qed
qed

lemma rank_inv_step:
  assumes inv: "rank_inv (num_results a) p st" and run: "\<not> stop_fetching_pages st"
  shows "rank_inv (num_results a) (p + 1) (page_body env cfg a q p st)"
proof -
  let ?k = "num_results a"
  let ?old = "raw_results_for_query st"
  obtain news where
    raw: "raw_results_for_query (page_body env cfg a q p st) = ?old @ news"
    and ranks: "map approx_rank news = map (\<lambda>j. p * ?k + 1 + int j) [0..<length news]"
    and pages: "\<forall>r \<in> set news. search_page r = p + 1"
    and stop: "news = [] \<longrightarrow> stop_fetching_pages (page_body env cfg a q p st)"
    by (rule page_body_raw [of env cfg a q p st]) blast
  from inv have old_formula:
    "\<And>p'. map approx_rank (filter (\<lambda>r. search_page r = p' + 1) ?old)
            = map (\<lambda>i. p' * ?k + int i + 1)
                [0..<length (filter (\<lambda>r. search_page r = p' + 1) ?old)]"
    and old_pages: "\<forall>r \<in> set ?old. search_page r \<le> p"
    and old_empty: "?old = [] \<longrightarrow> p = 0 \<or> stop_fetching_pages st"
    and old_first: "?old \<noteq> [] \<longrightarrow> approx_rank (hd ?old) = 1"
    by (simp_all add: rank_inv_def)
  have formula: "map approx_rank (filter (\<lambda>r. search_page r = p' + 1) (?old @ news))
            = map (\<lambda>i. p' * ?k + int i + 1)
                [0..<length (filter (\<lambda>r. search_page r = p' + 1) (?old @ news))]" for p'
  proof (cases "p' = p")
    case True
    have "filter (\<lambda>r. search_page r = p + 1) ?old = []"
      using old_pages by (auto simp: filter_empty_conv)
    moreover have "filter (\<lambda>r. search_page r = p + 1) news = news"
      using pages by (simp add: filter_id_conv)
    moreover have "(\<lambda>j. p * ?k + 1 + int j) = (\<lambda>i. p * ?k + int i + 1)"
      by (simp add: fun_eq_iff)
    ultimately show ?thesis using ranks True by simp
  next
    case False
    have "filter (\<lambda>r. search_page r = p' + 1) news = []"
      using pages False by (auto simp: filter_empty_conv)
    then show ?thesis using old_formula [of p'] by simp
  qed
  have bound: "\<forall>r \<in> set (?old @ news). search_page r \<le> p + 1"
    using old_pages pages by auto
  have empty: "?old @ news = [] \<longrightarrow> p + 1 = 0 \<or> stop_fetching_pages (page_body env cfg a q p st)"
    using stop by simp
  have first: "?old @ news \<noteq> [] \<longrightarrow> approx_rank (hd (?old @ news)) = 1"
  proof (cases "?old = []")
    case False
    then show ?thesis using old_first by simp
  next
    case True
    with old_empty run have p0: "p = 0" by simp
    show ?thesis
    proof
      assume "?old @ news \<noteq> []"
      with True have ne: "news \<noteq> []" by simp
      then have "approx_rank (hd news) = hd (map approx_rank news)"
        by (simp add: hd_map)
      also have "\<dots> = 1"
        unfolding ranks using ne p0 by (simp add: hd_map upt_conv_Cons)
      finally show "approx_rank (hd (?old @ news)) = 1" using True by simp
    qed
  qed
  show ?thesis
    unfolding rank_inv_def raw using formula bound empty first by blast
qed

lemma strict_sorted_ranks: "sorted_wrt (<) (map (\<lambda>j. c + int j) [0..<n])"
  by (simp add: sorted_wrt_iff_nth_less)

lemma sorted_inv_step:
  assumes inv: "sorted_inv (num_results a) p st"
    and contract: "\<forall>params w r. p_num params = num_results a \<and>
          fst (requests_get env params w) = HttpOk r \<longrightarrow>
        int (length (process_search_results (Some r))) \<le> num_results a"
  shows "sorted_inv (num_results a) (p + 1) (page_body env cfg a q p st)"
proof -
  let ?k = "num_results a"
  let ?old = "raw_results_for_query st"
  obtain news where
    raw: "raw_results_for_query (page_body env cfg a q p st) = ?old @ news"
    and ranks: "map approx_rank news = map (\<lambda>j. p * ?k + 1 + int j) [0..<length news]"
    and len: "news = [] \<or> int (length news) \<le> ?k"
    using contract by (rule_tac page_body_raw [of env cfg a q p st]) blast
  from inv have old_sorted: "sorted_wrt (<) (map approx_rank ?old)"
    and old_bound: "\<forall>r \<in> set ?old. approx_rank r \<le> p * ?k"
    and old_k: "?old = [] \<or> 0 \<le> ?k"
    by (simp_all add: sorted_inv_def)
  have new_k: "?old @ news = [] \<or> 0 \<le> ?k"
    using old_k len by (cases news) auto
  have news_set: "set (map approx_rank news) = (\<lambda>j. p * ?k + 1 + int j) ` {0..<length news}"
    unfolding ranks by simp
  have news_low: "\<forall>y \<in> set (map approx_rank news). p * ?k < y"
    unfolding news_set by auto
  have news_high: "\<forall>y \<in> set (map approx_rank news). y \<le> (p + 1) * ?k"
  proof (cases "news = []")
    case True
    then show ?thesis by simp
  next
    case False
    with len have "int (length news) \<le> ?k" by simp
    then show ?thesis unfolding news_set by (auto simp: algebra_simps)
  qed
  have news_sorted: "sorted_wrt (<) (map approx_rank news)"
    unfolding ranks by (rule strict_sorted_ranks)
  have "sorted_wrt (<) (map approx_rank (?old @ news))"
    using old_sorted news_sorted old_bound news_low
    by (fastforce simp: sorted_wrt_append)
  moreover have "\<forall>r \<in> set (?old @ news). approx_rank r \<le> (p + 1) * ?k"
  proof
    fix r assume "r \<in> set (?old @ news)"
    then consider "r \<in> set ?old" | "r \<in> set news" by auto
    then show "approx_rank r \<le> (p + 1) * ?k"
    proof cases
      case 1
      then have "approx_rank r \<le> p * ?k" using old_bound by simp
      moreover from 1 old_k have "0 \<le> ?k" by auto
      ultimately show ?thesis by (simp add: algebra_simps)
    next
      case 2
      then show ?thesis using news_high by simp
    qed
  qed
  ultimately show ?thesis unfolding sorted_inv_def raw using new_k by simp
qed

lemma rank_inv_init: "rank_inv k 0 (init_qstate w)"
  by (simp add: rank_inv_def init_qstate_def)

lemma sorted_inv_init: "sorted_inv k 0 (init_qstate w)"
  by (simp add: sorted_inv_def init_qstate_def)

lemma rank_inv_final:
  "\<exists>p. rank_inv (num_results a) p (process_single_query env cfg a q w)"
  unfolding process_single_query_def range_py_def
  by (rule pages_loop_upto_induct [where Inv = "rank_inv (num_results a)"])
    (simp_all add: rank_inv_init rank_inv_step)

lemma sorted_inv_final:
  assumes "\<forall>params w r. p_num params = num_results a \<and>
          fst (requests_get env params w) = HttpOk r \<longrightarrow>
        int (length (process_search_results (Some r))) \<le> num_results a"
  shows "\<exists>p. sorted_inv (num_results a) p (process_single_query env cfg a q w)"
  unfolding process_single_query_def range_py_def
  by (rule pages_loop_upto_induct [where Inv = "sorted_inv (num_results a)"])
    (simp_all add: sorted_inv_init sorted_inv_step [OF _ assms])

lemma item_body_same_ranks:
  assumes "map x_approx_rank (extracted_results_for_query st)
             = map approx_rank (raw_results_for_query st)"
  shows "map x_approx_rank (extracted_results_for_query (item_body env a q page si ri item st))
           = map approx_rank (raw_results_for_query (item_body env a q page si ri item st))"
  using assms
  by (auto simp: item_body_def prepare_raw_def raw_entry_def append_final_def
        final_record_def extract_text_def Let_def split: jval.splits prod.splits)

lemma items_loop_same_ranks:
  "map x_approx_rank (extracted_results_for_query st)
     = map approx_rank (raw_results_for_query st) \<Longrightarrow>
   map x_approx_rank (extracted_results_for_query (items_loop env a q page si ixs st))
     = map approx_rank (raw_results_for_query (items_loop env a q page si ixs st))"
  by (induction env a q page si ixs st rule: items_loop.induct)
    (simp_all add: item_body_same_ranks)

lemma page_body_same_ranks:
  assumes "map x_approx_rank (extracted_results_for_query st)
             = map approx_rank (raw_results_for_query st)"
  shows "map x_approx_rank (extracted_results_for_query (page_body env cfg a q p st))
           = map approx_rank (raw_results_for_query (page_body env cfg a q p st))"
proof -
  obtain res w' evs where
    s: "search_google_cse env (API_KEY cfg) (CSE_ID cfg) q (num_results a)
          (p * num_results a + 1) (api_kwargs a) (q_world st) = (res, w', evs)"
    by (rule search_result_cases)
  have frame: "map x_approx_rank (extracted_results_for_query
                   (st\<lparr>q_world := w', q_trace := q_trace st @ evs\<rparr>))
             = map approx_rank (raw_results_for_query
                   (st\<lparr>q_world := w', q_trace := q_trace st @ evs\<rparr>))"
    using assms by simp
  show ?thesis
    unfolding page_body_unfold [OF s]
    using assms items_loop_same_ranks [OF frame]
    by (simp split: sum.splits option.splits)
qed

lemma pages_loop_same_ranks:
  "map x_approx_rank (extracted_results_for_query st)
     = map approx_rank (raw_results_for_query st) \<Longrightarrow>
   map x_approx_rank (extracted_results_for_query (pages_loop env cfg a q ps st))
     = map approx_rank (raw_results_for_query (pages_loop env cfg a q ps st))"
  by (induction ps arbitrary: st) (simp_all add: page_body_same_ranks)

text \<open>
  C3, as amended. For every query, the first raw record, when there is one, has
  \<^verbatim>\<open>approx_rank\<close> 1; the records of page index \<open>p\<close> (those with \<^verbatim>\<open>search_page\<close> \<open>p + 1\<close>)
  have, at position \<open>i\<close> within the page, the rank \<open>p * num_results + i + 1\<close>; the extracted
  records carry the same ranks as the raw records. The ranks are strictly increasing
  when no answer to a request for \<^verbatim>\<open>num_results\<close> hits holds more than that many retained
  hits.
\<close>

theorem approx_rank_of_records:
  "(raw_results_for_query (process_single_query env cfg a q w) \<noteq> [] \<longrightarrow>
      approx_rank (hd (raw_results_for_query (process_single_query env cfg a q w))) = 1) \<and>
   (\<forall>p. map approx_rank (filter (\<lambda>r. search_page r = p + 1)
             (raw_results_for_query (process_single_query env cfg a q w)))
        = map (\<lambda>i. p * num_results a + int i + 1)
            [0..<length (filter (\<lambda>r. search_page r = p + 1)
                           (raw_results_for_query (process_single_query env cfg a q w)))]) \<and>
   map x_approx_rank (extracted_results_for_query (process_single_query env cfg a q w))
     = map approx_rank (raw_results_for_query (process_single_query env cfg a q w)) \<and>
   ((\<forall>params w r. p_num params = num_results a \<and>
          fst (requests_get env params w) = HttpOk r \<longrightarrow>
        int (length (process_search_results (Some r))) \<le> num_results a) \<longrightarrow>
      sorted_wrt (<) (map approx_rank (raw_results_for_query (process_single_query env cfg a q w))))"
proof -
  obtain p where "rank_inv (num_results a) p (process_single_query env cfg a q w)"
    using rank_inv_final [where a = a and env = env and cfg = cfg and q = q and w = w]
    by (rule exE)
  then have "raw_results_for_query (process_single_query env cfg a q w) \<noteq> [] \<longrightarrow>
      approx_rank (hd (raw_results_for_query (process_single_query env cfg a q w))) = 1"
    and "\<forall>p. map approx_rank (filter (\<lambda>r. search_page r = p + 1)
             (raw_results_for_query (process_single_query env cfg a q w)))
        = map (\<lambda>i. p * num_results a + int i + 1)
            [0..<length (filter (\<lambda>r. search_page r = p + 1)
                           (raw_results_for_query (process_single_query env cfg a q w)))]"
    by (simp_all add: rank_inv_def)
  moreover have "map x_approx_rank (extracted_results_for_query (process_single_query env cfg a q w))
     = map approx_rank (raw_results_for_query (process_single_query env cfg a q w))"
    unfolding process_single_query_def
    by (rule pages_loop_same_ranks) (simp add: init_qstate_def)
  moreover have "(\<forall>params w r. p_num params = num_results a \<and>
          fst (requests_get env params w) = HttpOk r \<longrightarrow>
        int (length (process_search_results (Some r))) \<le> num_results a) \<longrightarrow>
      sorted_wrt (<) (map approx_rank (raw_results_for_query (process_single_query env cfg a q w)))"
    using sorted_inv_final [where a = a and env = env and cfg = cfg and q = q and w = w]
    by (auto simp: sorted_inv_def)
  ultimately show ?thesis by blast
qed

text \<open>
  The condition is needed: the loop does not cut an answer down to the page size. Asked
  for one hit per page and answered with two, the query ranks its four records 1, 2, 2
  and 3.
\<close>

lemma generous_ranks_one:
  "map approx_rank (raw_results_for_query
     (process_single_query generous_env test_config (parse_arguments two_pages_of_one) ''q'' ()))
   = [1, 2, 2, 3]"
  by (simp add: query_defs config_defs generous_env_def test_config_def parse_arguments_def
        two_pages_of_one_def column_only_def or_default_def)

theorem approx_rank_not_increasing:
  "\<not> sorted_wrt (<) (map approx_rank (raw_results_for_query
       (process_single_query generous_env test_config (parse_arguments two_pages_of_one) ''q'' ())))"
  unfolding generous_ranks_one by simp

lemma generous_ranks_two:
  "map approx_rank (raw_results_for_query
     (process_single_query generous_env test_config (parse_arguments two_pages_of_two) ''q'' ()))
   = [1, 2, 3, 4]"
  by (simp add: query_defs config_defs generous_env_def test_config_def parse_arguments_def
        two_pages_of_two_def column_only_def or_default_def)

lemma generous_respects_two:
  "\<forall>params w r. p_num params = num_results (parse_arguments two_pages_of_two) \<and>
          fst (requests_get generous_env params w) = HttpOk r \<longrightarrow>
        int (length (process_search_results (Some r)))
          \<le> num_results (parse_arguments two_pages_of_two)"
  by (auto simp: generous_env_def process_search_results_def retain_item_def parse_arguments_def
        two_pages_of_two_def column_only_def or_default_def config_defs Let_def)

theorem approx_rank_of_records_witness:
  "raw_results_for_query
     (process_single_query generous_env test_config (parse_arguments two_pages_of_two) ''q'' ())
     \<noteq> [] \<and>
   approx_rank (hd (raw_results_for_query
     (process_single_query generous_env test_config (parse_arguments two_pages_of_two) ''q'' ())))
     = 1 \<and>
   sorted_wrt (<) (map approx_rank (raw_results_for_query
     (process_single_query generous_env test_config (parse_arguments two_pages_of_two) ''q'' ())))"
proof -
  have "raw_results_for_query
     (process_single_query generous_env test_config (parse_arguments two_pages_of_two) ''q'' ())
     \<noteq> []"
    using generous_ranks_two by auto
  then show ?thesis
    using approx_rank_of_records [of generous_env test_config
            "parse_arguments two_pages_of_two" "''q''" "()"]
      generous_respects_two
    by blast
qed

subsection \<open>A short page ends the query\<close>

lemma item_body_searches:
  "filter is_search (q_trace (item_body env a q page si ri item st))
     = filter is_search (q_trace st)"
  by (auto simp: item_body_def prepare_raw_def append_final_def extract_text_def Let_def
      split: jval.splits prod.splits)

lemma items_loop_searches:
  "filter is_search (q_trace (items_loop env a q page si ixs st))
     = filter is_search (q_trace st)"
  by (induction env a q page si ixs st rule: items_loop.induct)
    (simp_all add: item_body_searches)

lemma search_google_cse_events:
  assumes "search_google_cse env ak ci q n s site w = (Inr (Some r), w', evs)"
  shows "evs = [EvSearch q s n]"
  using assms
  by (auto simp: search_google_cse_def
      split: option.splits if_splits prod.splits http_outcome.splits)

lemma page_body_by_length:
  assumes len: "page_length env cfg a q p (q_world st) = Some n"
  shows "stop_fetching_pages (page_body env cfg a q p st)
           = (stop_fetching_pages st \<or> n = 0 \<or> n < num_results a)"
    and "filter is_search (q_trace (page_body env cfg a q p st))
           = filter is_search (q_trace st) @ [EvSearch q (p * num_results a + 1) (num_results a)]"
    and "length (raw_results_for_query (page_body env cfg a q p st))
           = length (raw_results_for_query st) + nat n"
proof -
  obtain res w' evs where
    s: "search_google_cse env (API_KEY cfg) (CSE_ID cfg) q (num_results a)
          (p * num_results a + 1) (api_kwargs a) (q_world st) = (res, w', evs)"
    by (rule search_result_cases)
  from len obtain r where
    r: "res = Inr (Some r)" "n = int (length (process_search_results (Some r)))"
    unfolding page_length_def s
    by (cases res) (auto split: option.splits)
  have evs: "evs = [EvSearch q (p * num_results a + 1) (num_results a)]"
    using s unfolding r(1) by (rule search_google_cse_events)
  note pb = page_body_unfold [OF s, unfolded r(1) evs, simplified]
  show "stop_fetching_pages (page_body env cfg a q p st)
           = (stop_fetching_pages st \<or> n = 0 \<or> n < num_results a)"
    unfolding pb r(2) by (auto simp: items_loop_stop)
  show "filter is_search (q_trace (page_body env cfg a q p st))
           = filter is_search (q_trace st) @ [EvSearch q (p * num_results a + 1) (num_results a)]"
    unfolding pb by (simp add: items_loop_searches)
  show "length (raw_results_for_query (page_body env cfg a q p st))
           = length (raw_results_for_query st) + nat n"
    unfolding pb r(2)
    by (simp add: items_loop_lengths enumerate_py_def length_enumerate_from)
qed

lemma short_page_ends_loop:
  assumes "\<not> stop_fetching_pages st"
    and "page_length env cfg a q p (q_world st) = Some n"
    and "n < num_results a"
  shows "stop_fetching_pages (page_body env cfg a q p st) \<and>
         pages_loop env cfg a q (p # rest) st = page_body env cfg a q p st \<and>
         filter is_search (q_trace (pages_loop env cfg a q (p # rest) st))
           = filter is_search (q_trace st) @
             [EvSearch q (p * num_results a + 1) (num_results a)]"
proof -
  note b = page_body_by_length [OF assms(2)]
  have stop: "stop_fetching_pages (page_body env cfg a q p st)"
    using b(1) assms(3) by simp
  then have "pages_loop env cfg a q (p # rest) st = page_body env cfg a q p st"
    using assms(1) by (simp add: pages_loop_stopped)
  then show ?thesis using stop b(2) by simp
qed

lemma four_pages_run:
  assumes pages: "4 < pages a"
    and p0: "page_length env cfg a q 0 (q_world (state_before env cfg a q w 0))
               = Some (num_results a)"
    and p1: "page_length env cfg a q 1 (q_world (state_before env cfg a q w 1))
               = Some (num_results a)"
    and p2: "page_length env cfg a q 2 (q_world (state_before env cfg a q w 2))
               = Some (num_results a)"
    and p3: "page_length env cfg a q 3 (q_world (state_before env cfg a q w 3))
               = Some (num_results a - 1)"
  shows "filter is_search (q_trace (process_single_query env cfg a q w))
           = map (\<lambda>page. EvSearch q (page * num_results a + 1) (num_results a)) [0, 1, 2, 3] \<and>
         stop_fetching_pages (process_single_query env cfg a q w) \<and>
         int (length (raw_results_for_query (process_single_query env cfg a q w)))
           = 4 * num_results a - 1"
proof -
  let ?st0 = "init_qstate w"
  let ?st1 = "page_body env cfg a q 0 ?st0"
  let ?st2 = "page_body env cfg a q 1 ?st1"
  let ?st3 = "page_body env cfg a q 2 ?st2"
  let ?st4 = "page_body env cfg a q 3 ?st3"
  have sb: "state_before env cfg a q w 0 = ?st0" "state_before env cfg a q w 1 = ?st1"
    "state_before env cfg a q w 2 = ?st2" "state_before env cfg a q w 3 = ?st3"
    by (simp_all add: numeral_2_eq_2 numeral_3_eq_3)
  note b0 = page_body_by_length [OF p0 [unfolded sb]]
  note b1 = page_body_by_length [OF p1 [unfolded sb]]
  note b2 = page_body_by_length [OF p2 [unfolded sb]]
  note b3 = page_body_by_length [OF p3 [unfolded sb]]
  have "0 \<le> num_results a - 1"
    using p3 by (auto simp: page_length_def split: sum.splits option.splits)
  then have size: "1 \<le> num_results a" by simp
  have s0: "\<not> stop_fetching_pages ?st0" by (rule init_not_stopped)
  have s1: "\<not> stop_fetching_pages ?st1" using b0(1) s0 size by simp
  have s2: "\<not> stop_fetching_pages ?st2" using b1(1) s1 size by simp
  have s3: "\<not> stop_fetching_pages ?st3" using b2(1) s2 size by simp
  have s4: "stop_fetching_pages ?st4" using b3(1) by simp
  have "range_py (pages a) = 0 # 1 # 2 # 3 # 4 # [5..pages a - 1]"
    using pages by (simp add: range_py_def upto_rec1)
  then have run: "process_single_query env cfg a q w = ?st4"
    using s0 s1 s2 s3 s4 by (simp add: process_single_query_def)
  have t0: "q_trace ?st0 = []" "raw_results_for_query ?st0 = []"
    by (simp_all add: init_qstate_def)
  have "filter is_search (q_trace ?st4)
          = map (\<lambda>page. EvSearch q (page * num_results a + 1) (num_results a)) [0, 1, 2, 3]"
    unfolding b3(2) b2(2) b1(2) b0(2) t0 by simp
  moreover have "int (length (raw_results_for_query ?st4)) = 4 * num_results a - 1"
    unfolding b3(3) b2(3) b1(3) b0(3) t0 using size by simp
  ultimately show ?thesis using s4 unfolding run by simp
qed

text \<open>
  C1. A query stops fetching as soon as the normalized list of a page is shorter than the
  page size: whenever the loop reaches a page \<open>p\<close> whose search call returns an object
  with fewer than \<^verbatim>\<open>num_results\<close> retained hits, the flag is set, the loop over the pages ends
  with this page whatever pages \<open>rest\<close> are left, and the request for \<open>p\<close> is the last one
  sent. In particular, for a page size \<open>k\<close>: when the pages 0, 1 and 2 come with \<open>k\<close>
  retained hits and page 3 with \<open>k - 1\<close>, each in the state of the world in which it is
  requested, a query with more than four pages allowed sends exactly the four requests
  for the pages 0 to 3 and returns \<open>4 * k - 1\<close> raw records.
\<close>

theorem stops_after_short_page:
  "(\<not> stop_fetching_pages st \<and> page_length env cfg a q p (q_world st) = Some n \<and>
    n < num_results a \<longrightarrow>
      stop_fetching_pages (page_body env cfg a q p st) \<and>
      pages_loop env cfg a q (p # rest) st = page_body env cfg a q p st \<and>
      filter is_search (q_trace (pages_loop env cfg a q (p # rest) st))
        = filter is_search (q_trace st) @
          [EvSearch q (p * num_results a + 1) (num_results a)]) \<and>
   (4 < pages a \<and>
    page_length env cfg a q 0 (q_world (state_before env cfg a q w 0)) = Some (num_results a) \<and>
    page_length env cfg a q 1 (q_world (state_before env cfg a q w 1)) = Some (num_results a) \<and>
    page_length env cfg a q 2 (q_world (state_before env cfg a q w 2)) = Some (num_results a) \<and>
    page_length env cfg a q 3 (q_world (state_before env cfg a q w 3))
      = Some (num_results a - 1) \<longrightarrow>
      filter is_search (q_trace (process_single_query env cfg a q w))
        = map (\<lambda>page. EvSearch q (page * num_results a + 1) (num_results a)) [0, 1, 2, 3] \<and>
      stop_fetching_pages (process_single_query env cfg a q w) \<and>
      int (length (raw_results_for_query (process_single_query env cfg a q w)))
        = 4 * num_results a - 1)"
  using short_page_ends_loop [of st env cfg a q p n rest] four_pages_run [of a env cfg q w]
  by blast

lemma six_pages_of_two_args:
  "num_results (parse_arguments six_pages_of_two) = 2"
  "pages (parse_arguments six_pages_of_two) = 6"
  "api_kwargs (parse_arguments six_pages_of_two) = None"
  "timeout (parse_arguments six_pages_of_two) = 15"
  by (simp_all add: parse_arguments_def six_pages_of_two_def column_only_def or_default_def
        config_defs api_kwargs_def Let_def)

lemma counting_states:
  "q_world (state_before counting_env test_config (parse_arguments six_pages_of_two) ''q'' 0 0) = 0"
  "q_world (state_before counting_env test_config (parse_arguments six_pages_of_two) ''q'' 0 1) = 1"
  "q_world (state_before counting_env test_config (parse_arguments six_pages_of_two) ''q'' 0 2) = 2"
  "q_world (state_before counting_env test_config (parse_arguments six_pages_of_two) ''q'' 0 3) = 3"
  "\<not> stop_fetching_pages
       (state_before counting_env test_config (parse_arguments six_pages_of_two) ''q'' 0 3)"
  by (simp_all add: numeral_2_eq_2 numeral_3_eq_3 six_pages_of_two_args init_qstate_def
        page_body_def search_google_cse_def process_search_results_def retain_item_def
        get_default_def enumerate_py_def item_body_def prepare_raw_def raw_entry_def
        append_final_def extract_text_def final_record_def Let_def
        counting_env_def test_config_def hit_A_def)

lemma counting_lengths:
  "page_length counting_env test_config (parse_arguments six_pages_of_two) ''q'' p calls
     = Some (if calls = 3 then 1 else 2)"
  by (simp add: page_length_def search_google_cse_def process_search_results_def
        retain_item_def counting_env_def test_config_def hit_A_def)

theorem stops_after_short_page_witness:
  "pages_loop counting_env test_config (parse_arguments six_pages_of_two) ''q'' [3, 4, 5]
     (state_before counting_env test_config (parse_arguments six_pages_of_two) ''q'' 0 3)
   = page_body counting_env test_config (parse_arguments six_pages_of_two) ''q'' 3
       (state_before counting_env test_config (parse_arguments six_pages_of_two) ''q'' 0 3) \<and>
   filter is_search
     (q_trace (process_single_query counting_env test_config
                 (parse_arguments six_pages_of_two) ''q'' 0))
   = [EvSearch ''q'' 1 2, EvSearch ''q'' 3 2, EvSearch ''q'' 5 2, EvSearch ''q'' 7 2] \<and>
   length (raw_results_for_query
     (process_single_query counting_env test_config
        (parse_arguments six_pages_of_two) ''q'' 0)) = 7"
proof -
  let ?a = "parse_arguments six_pages_of_two"
  let ?st = "state_before counting_env test_config ?a ''q'' 0 3"
  have short: "\<not> stop_fetching_pages ?st \<and>
      page_length counting_env test_config ?a ''q'' 3 (q_world ?st) = Some 1 \<and>
      1 < num_results ?a"
    by (simp only: counting_lengths counting_states six_pages_of_two_args) simp
  have scenario: "4 < pages ?a \<and>
      page_length counting_env test_config ?a ''q'' 0
        (q_world (state_before counting_env test_config ?a ''q'' 0 0)) = Some (num_results ?a) \<and>
      page_length counting_env test_config ?a ''q'' 1
        (q_world (state_before counting_env test_config ?a ''q'' 0 1)) = Some (num_results ?a) \<and>
      page_length counting_env test_config ?a ''q'' 2
        (q_world (state_before counting_env test_config ?a ''q'' 0 2)) = Some (num_results ?a) \<and>
      page_length counting_env test_config ?a ''q'' 3
        (q_world (state_before counting_env test_config ?a ''q'' 0 3))
        = Some (num_results ?a - 1)"
    by (simp only: counting_lengths counting_states six_pages_of_two_args) simp
  have "pages_loop counting_env test_config ?a ''q'' (3 # [4, 5]) ?st
          = page_body counting_env test_config ?a ''q'' 3 ?st \<and>
        filter is_search (q_trace (process_single_query counting_env test_config ?a ''q'' 0))
          = map (\<lambda>page. EvSearch ''q'' (page * num_results ?a + 1) (num_results ?a))
              [0, 1, 2, 3] \<and>
        int (length (raw_results_for_query
               (process_single_query counting_env test_config ?a ''q'' 0)))
          = 4 * num_results ?a - 1"
    using stops_after_short_page [where env = counting_env and cfg = test_config
            and a = ?a and q = "''q''" and w = 0 and st = ?st and p = 3 and n = 1
            and rest = "[4, 5]"]
      short scenario
    by blast
  then show ?thesis
    by (simp only: six_pages_of_two_args) simp
qed

section \<open>Properties of process\_search\_results\<close>

lemma process_items_filter:
  "process_items processed its = processed @ map retained (filter has_http_link its)"
  by (induction its arbitrary: processed)
    (auto simp: has_http_link_def retained_def retain_item_def get_default_def
      split: option.splits jval.splits)

lemma process_search_results_filter:
  "process_search_results (Some r) =
     (case resp_items r of
        None \<Rightarrow> []
      | Some its \<Rightarrow> map retained (filter has_http_link its))"
  by (simp add: process_search_results_def process_items_filter split: option.splits)

lemma example_run:
  "raw_results_for_query
     (process_single_query (example_env extraction) test_config
        (parse_arguments one_page_of_ten) ''test'' w)
     = [\<lparr>title = JStr ''A'', link = JStr ''https://a.example'', snippet = JStr ''s1'',
         query = ''test'', search_page = 1, approx_rank = 1\<rparr>]"
  "extracted_results_for_query
     (process_single_query (example_env extraction) test_config
        (parse_arguments one_page_of_ten) ''test'' w)
     = [\<lparr>x_query = ''test'', x_search_page = 1, x_approx_rank = 1,
         url = JStr ''https://a.example'', x_title = JStr ''A'',
         extracted_text = fst (extraction ''https://a.example'' 15 w)\<rparr>]"
  "stop_fetching_pages
     (process_single_query (example_env extraction) test_config
        (parse_arguments one_page_of_ten) ''test'' w)"
  "filter is_search (q_trace
     (process_single_query (example_env extraction) test_config
        (parse_arguments one_page_of_ten) ''test'' w))
     = [EvSearch ''test'' 1 10]"
  by (simp_all add: query_defs config_defs example_env_def example_response_def test_config_def
        parse_arguments_def one_page_of_ten_def column_only_def or_default_def
        split: prod.splits)

subsection \<open>Any decoded answer\<close>

lemma normalize_item_testable:
  "link_testable item \<Longrightarrow>
   normalize_item processed item
     = Inr (if has_http_link_json item then processed @ [kept item] else processed)"
  by (cases item) (auto split: option.splits json.splits)

lemma normalize_item_raises:
  "\<not> link_testable item \<Longrightarrow> normalize_item processed item = Inl AttributeError"
  by (cases item) (auto split: option.splits json.splits)

lemma normalize_items_testable:
  "list_all link_testable its \<Longrightarrow>
   normalize_items processed its = Inr (processed @ map kept (filter has_http_link_json its))"
  by (induction its arbitrary: processed) (simp_all add: normalize_item_testable)

lemma normalize_items_raises:
  "\<not> list_all link_testable its \<Longrightarrow> normalize_items processed its = Inl AttributeError"
proof (induction its arbitrary: processed)
  case Nil
  then show ?case by simp
next
  case (Cons item its)
  show ?case
  proof (cases "link_testable item")
    case True
    then show ?thesis using Cons by (simp add: normalize_item_testable)
  next
    case False
    then show ?thesis by (simp add: normalize_item_raises)
  qed
qed

lemma json_of_jval_testable:
  "(case json_of_jval x of
      JsStr s \<Rightarrow> True
    | JsNull \<Rightarrow> True
    | JsBool b \<Rightarrow> \<not> b
    | JsNum y \<Rightarrow> y = 0
    | JsArr xs \<Rightarrow> xs = []
    | JsObj kvs \<Rightarrow> kvs = [])"
  by (cases x) simp_all

lemma json_of_item_testable: "link_testable (json_of_item item)"
  using json_of_jval_testable
  by (cases "item_title item"; cases "item_link item"; cases "item_snippet item")
    (simp_all add: json_of_item_def member_of_def)

lemma json_of_item_http: "has_http_link_json (json_of_item item) = has_http_link item"
  by (auto simp: json_of_item_def member_of_def has_http_link_def
      split: option.splits jval.splits)

lemma json_of_item_kept:
  "has_http_link item \<Longrightarrow> kept (json_of_item item) = normalized_of (retained item)"
  by (auto simp: json_of_item_def member_of_def has_http_link_def normalized_of_def
        retained_def get_default_def field_or_na_def
      split: option.splits jval.splits)

lemma kept_of_typed:
  "map kept (filter has_http_link_json (map json_of_item its))
     = map normalized_of (map retained (filter has_http_link its))"
  by (induction its) (simp_all add: json_of_item_http json_of_item_kept)

lemma typed_model_agrees:
  "process_search_results_json (Some (json_of_response r))
     = Inr (map normalized_of (process_search_results (Some r)))"
proof (cases "resp_items r")
  case None
  then show ?thesis
    by (simp add: process_search_results_json_def json_of_response_def
          process_search_results_def)
next
  case (Some its)
  have "list_all link_testable (map json_of_item its)"
    by (simp add: list_all_iff json_of_item_testable)
  then have "normalize_items [] (map json_of_item its)
               = Inr (map normalized_of (map retained (filter has_http_link its)))"
    by (simp add: normalize_items_testable kept_of_typed)
  then show ?thesis
    using Some
    by (simp add: process_search_results_json_def json_of_response_def
          process_search_results_filter)
qed

lemma items_of_object:
  assumes "map_of members ''items'' = Some (JsArr its)"
  shows "process_search_results_json (Some (JsObj members)) = normalize_items [] its"
proof -
  from assms have "members \<noteq> []" by auto
  then show ?thesis using assms by (simp add: process_search_results_json_def)
qed

lemma object_without_items:
  assumes "map_of members ''items'' = None"
  shows "process_search_results_json (Some (JsObj members)) = Inr []"
  using assms by (simp add: process_search_results_json_def)

text \<open>
  C8, as amended. On an answer whose hits are objects with a link that is absent, false
  in Python's sense (\<^verbatim>\<open>null\<close>, the empty string, 0, \<^verbatim>\<open>false\<close>, an empty array or object)
  or a string, \<^verbatim>\<open>process_search_results\<close> retains, in their order, exactly the hits whose
  link is a non-empty string starting with \<^verbatim>\<open>http://\<close> or \<^verbatim>\<open>https://\<close>, with \<^verbatim>\<open>'N/A'\<close> for an
  absent title or snippet, and drops every other hit; an answer without \<^verbatim>\<open>items\<close> gives the
  empty list. On the answers of the provider's contract the function is the typed one
  used by the query. In the example of the spec (page size 10, one page) the query returns
  one raw record and one extracted record, both of the hit A, sends one request and stops.
\<close>

theorem normalization_keeps_http_links:
  "process_search_results_json None = Inr [] \<and>
   (map_of members ''items'' = None \<longrightarrow>
      process_search_results_json (Some (JsObj members)) = Inr []) \<and>
   (map_of members ''items'' = Some (JsArr its) \<and> list_all link_testable its \<longrightarrow>
      process_search_results_json (Some (JsObj members))
        = Inr (map kept (filter has_http_link_json its))) \<and>
   process_search_results_json (Some (json_of_response r))
     = Inr (map normalized_of (process_search_results (Some r))) \<and>
   process_search_results None = [] \<and>
   process_search_results (Some r) =
     (case resp_items r of
        None \<Rightarrow> []
      | Some typed \<Rightarrow> map retained (filter has_http_link typed)) \<and>
   raw_results_for_query
     (process_single_query (example_env extraction) test_config
        (parse_arguments one_page_of_ten) ''test'' w)
     = [\<lparr>title = JStr ''A'', link = JStr ''https://a.example'', snippet = JStr ''s1'',
         query = ''test'', search_page = 1, approx_rank = 1\<rparr>] \<and>
   extracted_results_for_query
     (process_single_query (example_env extraction) test_config
        (parse_arguments one_page_of_ten) ''test'' w)
     = [\<lparr>x_query = ''test'', x_search_page = 1, x_approx_rank = 1,
         url = JStr ''https://a.example'', x_title = JStr ''A'',
         extracted_text = fst (extraction ''https://a.example'' 15 w)\<rparr>] \<and>
   stop_fetching_pages
     (process_single_query (example_env extraction) test_config
        (parse_arguments one_page_of_ten) ''test'' w) \<and>
   filter is_search (q_trace
     (process_single_query (example_env extraction) test_config
        (parse_arguments one_page_of_ten) ''test'' w))
     = [EvSearch ''test'' 1 10]"
proof -
  have "process_search_results_json None = Inr []"
    by (simp add: process_search_results_json_def)
  moreover have "map_of members ''items'' = None \<longrightarrow>
      process_search_results_json (Some (JsObj members)) = Inr []"
    by (simp add: object_without_items)
  moreover have "map_of members ''items'' = Some (JsArr its) \<and> list_all link_testable its \<longrightarrow>
      process_search_results_json (Some (JsObj members))
        = Inr (map kept (filter has_http_link_json its))"
    by (simp add: items_of_object normalize_items_testable)
  moreover have "process_search_results None = []"
    by (simp add: process_search_results_def)
  ultimately show ?thesis
    using typed_model_agrees [of r] process_search_results_filter [of r]
      example_run [of extraction w]
    by simp
qed

theorem normalization_keeps_http_links_witness:
  "process_search_results_json
     (Some (JsObj [(''kind'', JsStr ''search''), (''items'', JsArr mixed_items)]))
     = Inr [\<lparr>n_title = JsStr ''A'', n_link = ''https://a.example'', n_snippet = JsStr ''s1''\<rparr>] \<and>
   process_search_results_json (Some (JsObj [(''kind'', JsStr ''search'')])) = Inr []"
proof -
  have testable: "list_all link_testable mixed_items"
    by (simp add: mixed_items_def)
  have with_items:
    "process_search_results_json
       (Some (JsObj [(''kind'', JsStr ''search''), (''items'', JsArr mixed_items)]))
       = Inr (map kept (filter has_http_link_json mixed_items))"
    using normalization_keeps_http_links
            [where members = "[(''kind'', JsStr ''search''), (''items'', JsArr mixed_items)]"
               and its = mixed_items and r = example_response
               and extraction = "\<lambda>u t w. (None, w)" and w = "()"]
      testable
    by simp
  have without_items:
    "process_search_results_json (Some (JsObj [(''kind'', JsStr ''search'')])) = Inr []"
    using normalization_keeps_http_links
            [where members = "[(''kind'', JsStr ''search'')]" and its = "[]"
               and r = example_response and extraction = "\<lambda>u t w. (None, w)" and w = "()"]
    by simp
  show ?thesis
    unfolding with_items without_items by (simp add: mixed_items_def field_or_na_def)
qed

text \<open>
  The test is on the prefix only: a link with spaces in it, which is no URL, is retained.
\<close>

theorem prefix_test_keeps_invalid_url:
  "process_search_results_json
     (Some (JsObj [(''items'', JsArr
        [JsObj [(''title'', JsStr ''C''), (''link'', JsStr ''https://not a url'')]])]))
     = Inr [\<lparr>n_title = JsStr ''C'', n_link = ''https://not a url'',
             n_snippet = JsStr ''N/A''\<rparr>] \<and>
   process_search_results
     (Some \<lparr>resp_error = False,
            resp_items = Some
              [\<lparr>item_title = Some (JStr ''C''), item_link = Some (JStr ''https://not a url''),
                item_snippet = None\<rparr>]\<rparr>)
     = [\<lparr>title = JStr ''C'', link = JStr ''https://not a url'', snippet = JStr ''N/A''\<rparr>] \<and>
   \<not> spec_valid_http_url ''https://not a url''"
  by (simp add: process_search_results_json_def field_or_na_def process_search_results_def
        retain_item_def get_default_def spec_valid_http_url_def)

text \<open>
  Outside the hits described above nothing is dropped: a hit that is no object, or whose
  link is true and no string, raises \<^verbatim>\<open>AttributeError\<close>, and \<^verbatim>\<open>items\<close> that cannot be
  iterated raise \<^verbatim>\<open>TypeError\<close>; nothing between this function and \<^verbatim>\<open>except Exception\<close> in
  \<^verbatim>\<open>run_process\<close> catches them.
\<close>

lemma ill_typed_answers_raise:
  "process_search_results_json
     (Some (JsObj [(''items'', JsArr [JsObj [(''link'', JsNum 5)]])])) = Inl AttributeError"
  "process_search_results_json
     (Some (JsObj [(''items'', JsArr [JsStr ''https://a.example''])])) = Inl AttributeError"
  "process_search_results_json (Some (JsObj [(''items'', JsNull)])) = Inl TypeError"
  by (simp_all add: process_search_results_json_def)

lemma untestable_item_raises:
  assumes "map_of members ''items'' = Some (JsArr its)" and "\<not> list_all link_testable its"
  shows "process_search_results_json (Some (JsObj members)) = Inl AttributeError"
  using assms by (simp add: items_of_object normalize_items_raises)

section \<open>Properties of parse\_arguments\<close>

text \<open>
  C5. The spec gives \<^verbatim>\<open>--search-output-base\<close> the default \<^verbatim>\<open>results/raw_search\<close> and
  \<^verbatim>\<open>--extracted-output-base\<close> the default \<^verbatim>\<open>results/extracted_text\<close>. In \<^verbatim>\<open>config.py\<close> the
  two constants hold each other's value, so a command line that names neither option
  gets the two defaults exchanged: the raw-search base is \<^verbatim>\<open>results/extracted_text\<close> and the
  extracted-text base is \<^verbatim>\<open>results/raw_search\<close>.
\<close>

theorem default_output_bases_swapped:
  "search_output_base (parse_arguments column_only) = ''results/extracted_text'' \<and>
   extracted_output_base (parse_arguments column_only) = ''results/raw_search''"
  by (simp add: parse_arguments_def column_only_def or_default_def config_defs Let_def)

section \<open>Properties of run\_process\<close>

subsection \<open>The two files of a batch\<close>







subsection \<open>A batch without records\<close>

lemma offline_run:
  "fst (run_process offline_env test_config (parse_arguments one_per_batch) ())
     = Summary (Some ZeroDivisionError)"
  "global_query_index (snd (run_process offline_env test_config (parse_arguments one_per_batch) ()))
     = 1"
  "filter is_search
     (r_trace (snd (run_process offline_env test_config (parse_arguments one_per_batch) ())))
     = [EvSearch ''q1'' 1 10]"
  "filter is_sleep
     (r_trace (snd (run_process offline_env test_config (parse_arguments one_per_batch) ())))
     = []"
  by (simp_all add: run_defs query_defs config_defs offline_env_def test_config_def
        parse_arguments_def one_per_batch_def column_only_def or_default_def)

text \<open>
  C4. The spec lets the loop over the batches go on after a batch whose queries all fail.
  With two queries in batches of one and a network error on every search request, the
  first batch collects no record; the last \<^verbatim>\<open>logging.info\<close> of the batch divides by the
  length of the empty list, \<^verbatim>\<open>except Exception\<close> receives the \<^verbatim>\<open>ZeroDivisionError\<close>, and the
  run ends after one query: no request is sent for the second.
\<close>

theorem empty_batch_ends_run:
  "fst (run_process offline_env test_config (parse_arguments one_per_batch) ())
     = Summary (Some ZeroDivisionError) \<and>
   global_query_index (snd (run_process offline_env test_config (parse_arguments one_per_batch) ()))
     = 1 \<and>
   filter is_search
     (r_trace (snd (run_process offline_env test_config (parse_arguments one_per_batch) ())))
     = [EvSearch ''q1'' 1 10]"
  by (simp add: offline_run)

text \<open>
  C9. The spec counts \<open>N - 1\<close> suspensions for a run over \<open>N\<close> queries. In the same run,
  over two queries with the default delay of one second, the second query is never
  reached and the run suspends zero times.
\<close>

theorem no_sleep_before_lost_query:
  "0 < delay (parse_arguments one_per_batch) \<and>
   fst (read_queries_from_vifactcheck offline_env
          (query_column (parse_arguments one_per_batch)) ()) = Some [''q1'', ''q2''] \<and>
   filter is_sleep
     (r_trace (snd (run_process offline_env test_config (parse_arguments one_per_batch) ())))
     = []"
  by (simp add: offline_run)
    (simp add: offline_env_def parse_arguments_def one_per_batch_def column_only_def
       or_default_def config_defs)

subsection \<open>The delay between the queries that are processed\<close>

text \<open>
  The delay itself is handled as described: with a positive delay, a run suspends once
  before every query it processes but the first, across the batches.
\<close>

lemma item_body_sleeps:
  "filter is_sleep (q_trace (item_body env a q page si ri item st))
     = filter is_sleep (q_trace st)"
  by (auto simp: item_body_def prepare_raw_def append_final_def extract_text_def Let_def
      split: jval.splits prod.splits)

lemma items_loop_sleeps:
  "filter is_sleep (q_trace (items_loop env a q page si ixs st))
     = filter is_sleep (q_trace st)"
  by (induction env a q page si ixs st rule: items_loop.induct)
    (simp_all add: item_body_sleeps)

lemma search_google_cse_sleeps:
  "filter is_sleep (snd (snd (search_google_cse env ak ci q n s site w))) = []"
  by (simp add: search_google_cse_def split: option.splits prod.splits http_outcome.splits)

lemma page_body_sleeps:
  "filter is_sleep (q_trace (page_body env cfg a q p st)) = filter is_sleep (q_trace st)"
proof -
  obtain res w' evs where
    s: "search_google_cse env (API_KEY cfg) (CSE_ID cfg) q (num_results a)
          (p * num_results a + 1) (api_kwargs a) (q_world st) = (res, w', evs)"
    by (rule search_result_cases)
  have "filter is_sleep evs = []"
    using search_google_cse_sleeps [of env "API_KEY cfg" "CSE_ID cfg" q "num_results a"
            "p * num_results a + 1" "api_kwargs a" "q_world st"]
    unfolding s by simp
  then show ?thesis
    unfolding page_body_unfold [OF s]
    by (simp add: items_loop_sleeps split: sum.splits option.splits)
qed

lemma pages_loop_sleeps:
  "filter is_sleep (q_trace (pages_loop env cfg a q ps st)) = filter is_sleep (q_trace st)"
  by (induction ps arbitrary: st) (simp_all add: page_body_sleeps)

lemma process_single_query_sleeps:
  "filter is_sleep (q_trace (process_single_query env cfg a q w)) = []"
  by (simp add: process_single_query_def pages_loop_sleeps init_qstate_def)

lemma query_body_delay_inv:
  assumes "0 < delay a" and "delay_inv rs"
  shows "delay_inv (query_body env cfg a q rs)"
  using assms
  by (auto simp: delay_inv_def query_body_def apply_delay_def Let_def
        process_single_query_sleeps)

lemma queries_loop_delay_inv:
  "0 < delay a \<Longrightarrow> delay_inv rs \<Longrightarrow> delay_inv (queries_loop env cfg a qs rs)"
  by (induction qs arbitrary: rs) (simp_all add: query_body_delay_inv)

lemma write_records_sleeps:
  "filter is_sleep (snd (snd (write_records env f rs acc))) = filter is_sleep (snd (snd acc))"
  by (induction env f rs acc rule: write_records.induct) (simp_all split: prod.splits)

lemma write_batch_file_sleeps:
  "filter is_sleep (snd (snd (snd (write_batch_file env f rs w)))) = []"
proof -
  obtain was_opened w1 where o: "open_w env f w = (was_opened, w1)"
    by (cases "open_w env f w")
  obtain n w2 evs where wr: "write_records env f rs (0, w1, [EvOpen f True]) = (n, w2, evs)"
    by (metis prod_cases3)
  have evs: "filter is_sleep evs = []"
    using write_records_sleeps [of env f rs "(0, w1, [EvOpen f True])"] unfolding wr by simp
  obtain was_closed w3 where c: "close_file env f w2 = (was_closed, w3)"
    by (cases "close_file env f w2")
  show ?thesis
    by (simp add: write_batch_file_def o wr c evs)
qed

lemma save_batch_delay_inv:
  assumes "delay_inv rs"
  shows "delay_inv (snd (save_batch env a batch_index rs))"
proof -
  let ?rawf = "BatchFile (search_output_base a) (batch_index + 1)"
  let ?extf = "BatchFile (extracted_output_base a) (batch_index + 1)"
  obtain n1 d1 w1 evs1 where
    f1: "write_batch_file env ?rawf (map RawLine (current_batch_raw_results rs)) (r_world rs)
           = (n1, d1, w1, evs1)"
    by (metis prod_cases4)
  obtain n2 d2 w2 evs2 where
    f2: "write_batch_file env ?extf (map ExtractedLine (current_batch_extracted_results rs)) w1
           = (n2, d2, w2, evs2)"
    by (metis prod_cases4)
  have "filter is_sleep evs1 = []"
    using write_batch_file_sleeps
            [of env ?rawf "map RawLine (current_batch_raw_results rs)" "r_world rs"]
    unfolding f1 by simp
  moreover have "filter is_sleep evs2 = []"
    using write_batch_file_sleeps
            [of env ?extf "map ExtractedLine (current_batch_extracted_results rs)" w1]
    unfolding f2 by simp
  ultimately show ?thesis
    using assms by (simp add: save_batch_def Let_def f1 f2 delay_inv_def)
qed

lemma batch_body_delay_inv:
  assumes "0 < delay a" and "delay_inv rs"
  shows "delay_inv (snd (batch_body env cfg a batch_index query_batch rs))"
proof -
  have "delay_inv (rs\<lparr>current_batch_raw_results := [], current_batch_extracted_results := []\<rparr>)"
    using assms(2) by (simp add: delay_inv_def)
  then show ?thesis
    unfolding batch_body_def
    by (intro save_batch_delay_inv queries_loop_delay_inv assms(1))
qed

lemma batches_loop_delay_inv:
  "0 < delay a \<Longrightarrow> delay_inv rs \<Longrightarrow> delay_inv (snd (batches_loop env cfg a bs rs))"
proof (induction env cfg a bs rs rule: batches_loop.induct)
  case (1 env cfg a rs)
  then show ?case by simp
next
  case (2 env cfg a batch_index query_batch rest rs)
  obtain e rs' where b: "batch_body env cfg a batch_index query_batch rs = (e, rs')"
    by (cases "batch_body env cfg a batch_index query_batch rs")
  have inv': "delay_inv rs'"
    using batch_body_delay_inv [OF "2.prems", of env cfg batch_index query_batch] b by simp
  show ?case
  proof (cases e)
    case None
    then show ?thesis using "2.IH" [OF b [symmetric]] "2.prems"(1) inv' b by simp
  next
    case (Some x)
    then show ?thesis using inv' b by simp
  qed
qed

lemma init_delay_inv: "filter is_sleep evs = [] \<Longrightarrow> delay_inv (init_rstate w evs)"
  by (simp add: delay_inv_def init_rstate_def)

lemma sleeps_one_less_than_processed:
  assumes "0 < delay a"
  shows "int (length (filter is_sleep (r_trace (snd (run_process env cfg a w)))))
           = max 0 (global_query_index (snd (run_process env cfg a w)) - 1)"
proof -
  have tb: "delay_inv (snd (try_batches env cfg a qs
                 (init_rstate w' [EvMakedirs d1 True, EvMakedirs d2 True])))" for qs w' d1 d2
    using assms
    by (simp add: try_batches_def batches_loop_delay_inv init_delay_inv)
  have "delay_inv (snd (run_process env cfg a w))"
    using tb
    by (auto simp: run_process_def init_delay_inv split: prod.splits option.splits)
      (metis snd_conv)
  then show ?thesis by (simp add: delay_inv_def)
qed

text \<open>
  A run whose loop over the batches ends without exception has processed every query, and
  has then suspended once less than there are queries.
\<close>

lemma query_body_index:
  "global_query_index (query_body env cfg a q rs) = global_query_index rs + 1"
  by (simp add: query_body_def apply_delay_def Let_def)

lemma queries_loop_index:
  "global_query_index (queries_loop env cfg a qs rs) = global_query_index rs + int (length qs)"
  by (induction qs arbitrary: rs) (simp_all add: query_body_index)

lemma save_batch_index:
  "global_query_index (snd (save_batch env a batch_index rs)) = global_query_index rs"
  by (simp add: save_batch_def Let_def split: prod.splits)

lemma batch_body_index:
  "global_query_index (snd (batch_body env cfg a batch_index query_batch rs))
     = global_query_index rs + int (length query_batch)"
  by (simp add: batch_body_def save_batch_index queries_loop_index)

lemma batches_loop_complete:
  "fst (batches_loop env cfg a bs rs) = None \<Longrightarrow>
   global_query_index (snd (batches_loop env cfg a bs rs))
     = global_query_index rs + int (length (concat (map snd bs)))"
proof (induction env cfg a bs rs rule: batches_loop.induct)
  case (1 env cfg a rs)
  then show ?case by simp
next
  case (2 env cfg a batch_index query_batch rest rs)
  obtain e rs' where b: "batch_body env cfg a batch_index query_batch rs = (e, rs')"
    by (cases "batch_body env cfg a batch_index query_batch rs")
  have idx: "global_query_index rs' = global_query_index rs + int (length query_batch)"
    using batch_body_index [of env cfg a batch_index query_batch rs] b by simp
  show ?case
  proof (cases e)
    case None
    then show ?thesis using "2.IH" [OF b [symmetric]] "2.prems" idx b by simp
  next
    case (Some x)
    then show ?thesis using "2.prems" b by simp
  qed
qed

lemma take_drop_step: "take n (drop i xs) @ drop (i + n) xs = drop i xs"
  using append_take_drop_id [of n "drop i xs"] by (simp add: add.commute)

lemma concat_batch_from: "0 < bs \<Longrightarrow> concat (batch_from data bs i) = drop i data"
proof (induction data bs i rule: batch_from.induct)
  case (1 data bs i)
  show ?case
  proof (cases "i < length data")
    case True
    then have "concat (batch_from data bs i)
                 = take (nat bs) (drop i data) @ concat (batch_from data bs (i + nat bs))"
      using "1.prems" by (subst batch_from.simps) simp
    also have "\<dots> = take (nat bs) (drop i data) @ drop (i + nat bs) data"
      using "1.IH" True "1.prems" by simp
    finally show ?thesis by (simp only: take_drop_step)
  next
    case False
    then have "batch_from data bs i = []"
      by (subst batch_from.simps) simp
    then show ?thesis using False by simp
  qed
qed

lemma snd_enumerate_from: "map snd (enumerate_from i xs) = xs"
  by (induction xs arbitrary: i) simp_all

lemma completed_run_processes_all:
  assumes "fst (read_queries_from_vifactcheck env (query_column a) w) = Some queries"
    and "0 < batch_size a"
    and "fst (run_process env cfg a w) = Summary None"
  shows "global_query_index (snd (run_process env cfg a w)) = int (length queries)"
proof -
  have tb: "global_query_index (snd (try_batches env cfg a queries (init_rstate w' evs)))
              = int (length queries)"
    if "fst (try_batches env cfg a queries (init_rstate w' evs)) = None" for w' evs
    using that assms(2)
      batches_loop_complete [of env cfg a
        "enumerate_py (batch_generator queries (batch_size a))" "init_rstate w' evs"]
    by (simp add: try_batches_def enumerate_py_def snd_enumerate_from batch_generator_def
          concat_batch_from init_rstate_def)
  obtain w1 where rq: "read_queries_from_vifactcheck env (query_column a) w = (Some queries, w1)"
    using assms(1) by (cases "read_queries_from_vifactcheck env (query_column a) w") simp
  obtain made1 w2 where m1: "makedirs env (BatchDir (search_output_base a)) w1 = (made1, w2)"
    by (cases "makedirs env (BatchDir (search_output_base a)) w1")
  obtain made2 w3 where m2: "makedirs env (BatchDir (extracted_output_base a)) w2 = (made2, w3)"
    by (cases "makedirs env (BatchDir (extracted_output_base a)) w2")
  let ?rs0 = "init_rstate w3
                [EvMakedirs (BatchDir (search_output_base a)) True,
                 EvMakedirs (BatchDir (extracted_output_base a)) True]"
  from assms(3) have started:
    "validate_config cfg \<and> queries \<noteq> [] \<and> made1 \<and> made2"
    by (simp add: run_process_def rq m1 m2 split: if_splits)
  then have run: "run_process env cfg a w
                    = (Summary (fst (try_batches env cfg a queries ?rs0)),
                       snd (try_batches env cfg a queries ?rs0))"
    by (simp add: run_process_def rq m1 m2 split: prod.splits)
  with assms(3) have "fst (try_batches env cfg a queries ?rs0) = None" by simp
  from tb [OF this] show ?thesis unfolding run by simp
qed

lemma completed_run_sleeps:
  assumes "fst (read_queries_from_vifactcheck env (query_column a) w) = Some queries"
    and "0 < batch_size a" and "0 < delay a"
    and "fst (run_process env cfg a w) = Summary None"
  shows "int (length (filter is_sleep (r_trace (snd (run_process env cfg a w)))))
           = max 0 (int (length queries) - 1)"
  using sleeps_one_less_than_processed [OF assms(3), of env cfg w]
    completed_run_processes_all [OF assms(1,2,4)]
  by simp

end
